theory Spec2Isabelle
  imports Main
begin

section \<open>Strings and regular expressions of the host language\<close>

text \<open>
  The router is JavaScript. A string is modelled as a \<open>char list\<close>, each \<open>char\<close> standing
  for one code unit below 256. The backslash is written \<open>CHR 0x5C\<close>.

  The source uses regular expressions in three ways: \<open>String.prototype.replace\<close> with
  a global regex, \<open>RegExp.prototype.exec\<close> in a loop, and \<open>test\<close>/\<open>match\<close> on the regex
  that \<open>pathToRegex\<close> builds from a string. All the regexes that occur are sequences of
  single characters, character classes, the assertions \<open>^\<close> and \<open>$\<close>, and capturing
  groups that hold one greedy repetition of a class. That fragment is modelled here with
  the backtracking order of the language: a greedy repetition tries the longest run first.
\<close>

datatype cclass =
    Only char            \<comment> \<open>one literal character\<close>
  | Dot                  \<comment> \<open>\<open>.\<close>: anything but a line terminator\<close>
  | NotCh char           \<comment> \<open>\<open>[^c]\<close>\<close>
  | OneOf "char list"    \<comment> \<open>\<open>[abc]\<close>\<close>

fun in_class :: "cclass \<Rightarrow> char \<Rightarrow> bool" where
  "in_class (Only c) x = (x = c)"
| "in_class Dot x = (x \<noteq> CHR 0x0A \<and> x \<noteq> CHR 0x0D)"
| "in_class (NotCh c) x = (x \<noteq> c)"
| "in_class (OneOf cs) x = (x \<in> set cs)"

datatype rx_item =
    Ch cclass            \<comment> \<open>one character of the class\<close>
  | Bol                  \<comment> \<open>\<open>^\<close> (no multiline flag): only at index 0\<close>
  | Eol                  \<comment> \<open>\<open>$\<close> (no multiline flag): only at the end of the input\<close>
  | Cap cclass nat       \<comment> \<open>\<open>(C+)\<close> is \<open>Cap C 1\<close>, \<open>(C*)\<close> is \<open>Cap C 0\<close>\<close>

type_synonym regex = "rx_item list"

fun first_some :: "'a option list \<Rightarrow> 'a option" where
  "first_some [] = None"
| "first_some (None # xs) = first_some xs"
| "first_some (Some x # xs) = Some x"

text \<open>
  \<open>rx_at r pos s\<close> matches \<open>r\<close> against a prefix of \<open>s\<close>, where \<open>s\<close> starts at index
  \<open>pos\<close> of the whole input. The result is the list of captured groups and the number
  of characters consumed, for the first match in backtracking order.
\<close>

fun rx_at :: "regex \<Rightarrow> nat \<Rightarrow> string \<Rightarrow> (string list \<times> nat) option" where
  "rx_at [] pos s = Some ([], 0)"
| "rx_at (Ch c # r) pos [] = None"
| "rx_at (Ch c # r) pos (x # xs) =
     (if in_class c x
      then map_option (\<lambda>(caps, n). (caps, Suc n)) (rx_at r (Suc pos) xs)
      else None)"
| "rx_at (Bol # r) pos s = (if pos = 0 then rx_at r pos s else None)"
| "rx_at (Eol # r) pos s = (if s = [] then rx_at r pos s else None)"
| "rx_at (Cap c m # r) pos s =
     first_some
       (map (\<lambda>k. map_option (\<lambda>(caps, n). (take k s # caps, k + n))
                              (rx_at r (pos + k) (drop k s)))
            (rev [m ..< Suc (length (takeWhile (in_class c) s))]))"

text \<open>
  \<open>RegExp.prototype.exec\<close> without the sticky flag: the leftmost index at which the
  regex matches. The result is the matched text and the groups.
\<close>

fun rx_exec :: "regex \<Rightarrow> nat \<Rightarrow> string \<Rightarrow> (string \<times> string list) option" where
  "rx_exec r pos [] =
     (case rx_at r pos [] of None \<Rightarrow> None | Some (caps, n) \<Rightarrow> Some ([], caps))"
| "rx_exec r pos (x # xs) =
     (case rx_at r pos (x # xs) of
        None \<Rightarrow> rx_exec r (Suc pos) xs
      | Some (caps, n) \<Rightarrow> Some (take n (x # xs), caps))"

definition rx_test :: "regex \<Rightarrow> string \<Rightarrow> bool" where
  "rx_test r s = (rx_exec r 0 s \<noteq> None)"

text \<open>
  \<open>GetSubstitution\<close>: the expansion of a replacement string. \<open>$$\<close> is a dollar sign,
  \<open>$&\<close> the matched text, \<open>$`\<close> and \<open>$'\<close> the text before and after the match, \<open>$n\<close> and
  \<open>$nn\<close> a group when that group exists; any other dollar sign stands for itself.
\<close>

definition digit_val :: "char \<Rightarrow> nat option" where
  "digit_val c =
     (let n = (of_char c :: nat) in if 48 \<le> n \<and> n \<le> 57 then Some (n - 48) else None)"

text \<open>
  \<open>group_ref m d t\<close> reads a group reference after a dollar sign, \<open>d\<close> being the
  first character and \<open>t\<close> the rest, when there are \<open>m\<close> groups: the group's number and
  the number of digits read (two digits are preferred when that group exists).
\<close>

definition group_ref :: "nat \<Rightarrow> char \<Rightarrow> string \<Rightarrow> (nat \<times> nat) option" where
  "group_ref m d t =
     (case digit_val d of
        None \<Rightarrow> None
      | Some i \<Rightarrow>
          (case (case t of [] \<Rightarrow> None | e # t' \<Rightarrow> digit_val e) of
             Some j \<Rightarrow>
               if 1 \<le> 10 * i + j \<and> 10 * i + j \<le> m then Some (10 * i + j, 2)
               else if 1 \<le> i \<and> i \<le> m then Some (i, 1)
               else None
           | None \<Rightarrow> if 1 \<le> i \<and> i \<le> m then Some (i, 1) else None))"

fun get_substitution ::
  "string \<Rightarrow> string \<Rightarrow> string \<Rightarrow> string list \<Rightarrow> string \<Rightarrow> string" where
  "get_substitution m b a caps [] = []"
| "get_substitution m b a caps [c] = [c]"
| "get_substitution m b a caps (c # d # t) =
     (if c \<noteq> CHR ''$'' then c # get_substitution m b a caps (d # t)
      else if d = CHR ''$'' then CHR ''$'' # get_substitution m b a caps t
      else if d = CHR ''&'' then m @ get_substitution m b a caps t
      else if d = CHR 0x60 then b @ get_substitution m b a caps t
      else if d = CHR 0x27 then a @ get_substitution m b a caps t
      else (case group_ref (length caps) d t of
              None \<Rightarrow> c # get_substitution m b a caps (d # t)
            | Some (i, k) \<Rightarrow>
                caps ! (i - 1) @ get_substitution m b a caps (drop (k - 1) t)))"

text \<open>
  \<open>s.replace(regex, f)\<close> for a global regex: every leftmost non-overlapping match is
  replaced by what the replacer returns. The replacer receives the matched text, the
  groups, the text before the match and the text after it. An empty match is replaced
  and the scan moves on by one character.
\<close>

type_synonym replacer = "string \<Rightarrow> string list \<Rightarrow> string \<Rightarrow> string \<Rightarrow> string"

fun replace_all :: "regex \<Rightarrow> replacer \<Rightarrow> string \<Rightarrow> string \<Rightarrow> string" where
  "replace_all r f pre [] =
     (case rx_at r (length pre) [] of
        None \<Rightarrow> []
      | Some (caps, n) \<Rightarrow> f [] caps pre [])"
| "replace_all r f pre (x # xs) =
     (case rx_at r (length pre) (x # xs) of
        None \<Rightarrow> x # replace_all r f (pre @ [x]) xs
      | Some (caps, n) \<Rightarrow>
          if n = 0
          then f [] caps pre (x # xs) @ x # replace_all r f (pre @ [x]) xs
          else f (take n (x # xs)) caps pre (drop n (x # xs)) @
               replace_all r f (pre @ take n (x # xs)) (drop (n - 1) xs))"

definition by_template :: "string \<Rightarrow> replacer" where
  "by_template tpl = (\<lambda>m caps b a. get_substitution m b a caps tpl)"

definition regex_replace :: "regex \<Rightarrow> string \<Rightarrow> string \<Rightarrow> string" where
  "regex_replace r tpl s = replace_all r (by_template tpl) [] s"

text \<open>
  \<open>s.replace(pat, tpl)\<close> for a string pattern: only the first occurrence is replaced,
  and the replacement string is expanded by \<open>get_substitution\<close> with no groups.
\<close>

fun find_first :: "string \<Rightarrow> string \<Rightarrow> string \<Rightarrow> (string \<times> string) option" where
  "find_first pat pre [] = (if pat = [] then Some (pre, []) else None)"
| "find_first pat pre (x # xs) =
     (if take (length pat) (x # xs) = pat
      then Some (pre, drop (length pat) (x # xs))
      else find_first pat (pre @ [x]) xs)"

definition string_replace :: "string \<Rightarrow> string \<Rightarrow> string \<Rightarrow> string" where
  "string_replace pat tpl s =
     (case find_first pat [] s of
        None \<Rightarrow> s
      | Some (b, a) \<Rightarrow> b @ get_substitution pat b a [] tpl @ a)"

text \<open>\<open>s.split(c)\<close> for a one-character separator; \<open>split_on c []\<close> is \<open>[Nil]\<close>.\<close>

fun split_on :: "char \<Rightarrow> string \<Rightarrow> string list" where
  "split_on c [] = [Nil]"
| "split_on c (x # xs) =
     (if x = c then Nil # split_on c xs
      else (case split_on c xs of
              [] \<Rightarrow> [[x]]
            | w # ws \<Rightarrow> (x # w) # ws))"

fun join :: "string \<Rightarrow> string list \<Rightarrow> string" where
  "join sep [] = []"
| "join sep [w] = w"
| "join sep (w # v # ws) = w @ sep @ join sep (v # ws)"

text \<open>
  \<open>new RegExp(source)\<close> on the fragment that \<open>pathToRegex\<close> can produce: escaped
  characters, plain characters, the two assertions and the two groups \<open>(.*)\<close> and
  \<open>([^/]+)\<close>. \<open>None\<close> stands for a source text outside the fragment.
\<close>

definition syntax_chars :: "char list" where
  "syntax_chars = CHR 0x5C # ''-/^$*+?.()|[]{}''"

fun RegExp :: "string \<Rightarrow> regex option" where
  "RegExp [] = Some []"
| "RegExp (c # t) =
     (if c = CHR 0x5C then
        (case t of
           [] \<Rightarrow> None
         | d # t' \<Rightarrow> if d \<in> set syntax_chars
                     then map_option ((#) (Ch (Only d))) (RegExp t')
                     else None)
      else if c = CHR ''^'' then map_option ((#) Bol) (RegExp t)
      else if c = CHR ''$'' then map_option ((#) Eol) (RegExp t)
      else if c = CHR ''('' then
        (if take 3 t = ''.*)'' then map_option ((#) (Cap Dot 0)) (RegExp (drop 3 t))
         else if take 6 t = ''[^/]+)''
         then map_option ((#) (Cap (NotCh CHR ''/'') 1)) (RegExp (drop 6 t))
         else None)
      else if c \<in> set syntax_chars then None
      else map_option ((#) (Ch (Only c))) (RegExp t))"


section \<open>Values, contexts and route definitions\<close>

text \<open>
  The values that handlers return and that templates read: \<open>undefined\<close>, \<open>null\<close>,
  booleans, integral numbers, strings, DOM elements (by a name), functions of the
  application (by their source text), methods of the router bound to it (by their name),
  \<open>RegExp\<close> objects (by their source), arrays, and plain objects with their own
  properties in order.
\<close>

datatype jsval =
    Undefined
  | Null
  | Bool bool
  | Num int
  | Str string
  | Elem string
  | Fun string
  | Bound string
  | Rx string
  | Arr "jsval list"
  | Obj "(string \<times> jsval) list"

datatype error = Error string

text \<open>
  What the router takes from the JavaScript engine and the browser without saying what
  it is; every property below that mentions an engine \<open>e\<close> holds for every engine.
  \<^item> \<open>inherited v k\<close>: the value of \<open>v[k]\<close> when \<open>k\<close> is not one of the own properties
    that \<open>own_property\<close> knows (the prototype chain, and the own properties of functions,
    elements and \<open>RegExp\<close> objects).
  \<^item> \<open>bound_text m\<close>: \<open>String(f)\<close> for the method \<open>m\<close> of the router bound to it.
  \<^item> \<open>number_text n\<close>: \<open>String(n)\<close> for a number beyond the safe integers.
  \<^item> \<open>object_text v\<close>: \<open>String(v)\<close> for an element, a \<open>RegExp\<close> object, and an object
    that has a \<open>toString\<close> or \<open>valueOf\<close> of its own.
  \<^item> \<open>form_text s\<close>: what \<open>URLSearchParams\<close> makes of a name or value whose decoded
    bytes are not all ASCII.
  \<^item> \<open>new_location l u\<close>: the pathname and search of \<open>window.location\<close> after
    \<open>history.pushState\<close> or \<open>replaceState\<close> with the url \<open>u\<close> at the location \<open>l\<close>. (The
    url is taken to be one that the History API accepts.)
  \<^item> \<open>replace_on x v c\<close>: the outcome of \<open>x.replace('{{content}}', c)\<close> when the variable
    \<open>x\<close> holds \<open>v\<close>, which is not a string: the \<open>TypeError\<close>, whose message names \<open>x\<close>, or
    what a \<open>replace\<close> member of \<open>v\<close> returns or throws.
  \<^item> \<open>call_replacer f m i s\<close>: the string that \<open>String.prototype.replace\<close> inserts
    when its second argument is the function \<open>f\<close>, called with the match \<open>m\<close>, its index
    \<open>i\<close> and the whole string \<open>s\<close>; or what that call throws.
\<close>

record engine =
  inherited :: "jsval \<Rightarrow> string \<Rightarrow> jsval"
  bound_text :: "string \<Rightarrow> string"
  number_text :: "int \<Rightarrow> string"
  object_text :: "jsval \<Rightarrow> string"
  form_text :: "string \<Rightarrow> string"
  new_location :: "string \<Rightarrow> string \<Rightarrow> string"
  replace_on :: "string \<Rightarrow> jsval \<Rightarrow> jsval \<Rightarrow> error + jsval"
  call_replacer :: "jsval \<Rightarrow> string \<Rightarrow> nat \<Rightarrow> string \<Rightarrow> error + string"

fun truthy :: "jsval \<Rightarrow> bool" where
  "truthy Undefined = False"
| "truthy Null = False"
| "truthy (Bool b) = b"
| "truthy (Num n) = (n \<noteq> 0)"
| "truthy (Str s) = (s \<noteq> [])"
| "truthy (Elem x) = True"
| "truthy (Fun src) = True"
| "truthy (Bound m) = True"
| "truthy (Rx src) = True"
| "truthy (Arr xs) = True"
| "truthy (Obj ps) = True"

text \<open>\<open>v || d\<close>.\<close>

definition or_else :: "jsval \<Rightarrow> jsval \<Rightarrow> jsval" where
  "or_else v d = (if truthy v then v else d)"

fun digits_rev :: "nat \<Rightarrow> string" where
  "digits_rev n =
     (if n < 10 then [char_of (48 + n)]
      else char_of (48 + n mod 10) # digits_rev (n div 10))"

definition show_nat :: "nat \<Rightarrow> string" where
  "show_nat n = rev (digits_rev n)"

definition show_int :: "int \<Rightarrow> string" where
  "show_int i = (if i < 0 then CHR ''-'' # show_nat (nat (- i)) else show_nat (nat i))"

text \<open>
  \<open>String(v)\<close>. A number is printed in decimal digits when it is a safe integer (at most
  \<open>2^53\<close> in absolute value). Inside an array, \<open>undefined\<close> and \<open>null\<close> print as nothing.
\<close>

fun js_to_string :: "engine \<Rightarrow> jsval \<Rightarrow> string" where
  "js_to_string e Undefined = ''undefined''"
| "js_to_string e Null = ''null''"
| "js_to_string e (Bool b) = (if b then ''true'' else ''false'')"
| "js_to_string e (Num n) =
     (if - 9007199254740992 \<le> n \<and> n \<le> 9007199254740992 then show_int n
      else number_text e n)"
| "js_to_string e (Str s) = s"
| "js_to_string e (Elem x) = object_text e (Elem x)"
| "js_to_string e (Fun src) = src"
| "js_to_string e (Bound m) = bound_text e m"
| "js_to_string e (Rx src) = object_text e (Rx src)"
| "js_to_string e (Arr xs) =
     join '','' (map (\<lambda>x. if x = Undefined \<or> x = Null then [] else js_to_string e x) xs)"
| "js_to_string e (Obj ps) =
     (if map_of ps ''toString'' = None \<and> map_of ps ''valueOf'' = None
      then ''[object Object]''
      else object_text e (Obj ps))"

text \<open>
  \<open>v[k]\<close> for a value that is neither \<open>undefined\<close> nor \<open>null\<close>: an own property of an
  object, the length or an element of a string or an array, and otherwise what the
  engine finds.
\<close>

fun nat_of_digits :: "nat \<Rightarrow> string \<Rightarrow> nat option" where
  "nat_of_digits acc [] = Some acc"
| "nat_of_digits acc (c # cs) =
     (case digit_val c of
        None \<Rightarrow> None
      | Some d \<Rightarrow> nat_of_digits (10 * acc + d) cs)"

definition array_index :: "string \<Rightarrow> nat option" where
  "array_index k =
     (case nat_of_digits 0 k of
        None \<Rightarrow> None
      | Some i \<Rightarrow> if k \<noteq> [] \<and> show_nat i = k then Some i else None)"

fun own_property :: "jsval \<Rightarrow> string \<Rightarrow> jsval option" where
  "own_property (Obj ps) k = map_of ps k"
| "own_property (Str s) k =
     (if k = ''length'' then Some (Num (int (length s)))
      else (case array_index k of
              None \<Rightarrow> None
            | Some i \<Rightarrow> if i < length s then Some (Str [s ! i]) else None))"
| "own_property (Arr xs) k =
     (if k = ''length'' then Some (Num (int (length xs)))
      else (case array_index k of
              None \<Rightarrow> None
            | Some i \<Rightarrow> if i < length xs then Some (xs ! i) else None))"
| "own_property v k = None"

definition js_get :: "engine \<Rightarrow> jsval \<Rightarrow> string \<Rightarrow> jsval" where
  "js_get e v k = (case own_property v k of None \<Rightarrow> inherited e v k | Some x \<Rightarrow> x)"

text \<open>\<open>v?.[k]\<close>.\<close>

definition opt_get :: "engine \<Rightarrow> jsval \<Rightarrow> string \<Rightarrow> jsval" where
  "opt_get e v k = (if v = Undefined \<or> v = Null then Undefined else js_get e v k)"

text \<open>
  A JavaScript \<open>Map\<close>, and an object used as a dictionary, is an association list in
  insertion order: \<open>map_set\<close> keeps the place of a key that is already present.
  \<open>obj[k] = v\<close> for a string or \<open>undefined\<close> \<open>v\<close> is \<open>assign_property\<close>: it sets the own
  property \<open>k\<close>, except that assigning such a value to \<open>__proto__\<close> does nothing.
\<close>

fun map_set :: "'k \<Rightarrow> 'v \<Rightarrow> ('k \<times> 'v) list \<Rightarrow> ('k \<times> 'v) list" where
  "map_set k v [] = [(k, v)]"
| "map_set k v (p # ps) = (if fst p = k then (k, v) # ps else p # map_set k v ps)"

definition assign_property ::
  "string \<Rightarrow> jsval \<Rightarrow> (string \<times> jsval) list \<Rightarrow> (string \<times> jsval) list" where
  "assign_property k v ps = (if k = ''__proto__'' then ps else map_set k v ps)"

record nav_context =
  ctx_path :: string
  ctx_fullPath :: "string option"
  ctx_params :: "(string \<times> jsval) list"
  ctx_query :: "(string \<times> jsval) list"
  ctx_route :: "string option"

text \<open>
  Handlers, components, layouts, guards and middleware are functions of the application.
  Each is modelled by its source text and by what it returns or throws for a context;
  its other effects are outside the model.
\<close>

type_synonym handler = "nav_context \<Rightarrow> error + jsval"

datatype fn = Fn (fn_text: string) (fn_call: handler)

text \<open>
  The second argument of \<open>addRoute\<close> is a function, a string, or (\<open>HOther\<close>) a value that
  is neither; a layout and a component are a function or a name.
\<close>

datatype handler_src = HFun fn | HStr string | HOther jsval

datatype layout_ref = LFun fn | LName string

datatype component_ref = CFun fn | CName string

definition fn_val :: "fn \<Rightarrow> jsval" where
  "fn_val f = Fun (fn_text f)"

fun handler_val :: "handler_src \<Rightarrow> jsval" where
  "handler_val (HFun f) = fn_val f"
| "handler_val (HStr s) = Str s"
| "handler_val (HOther v) = v"

fun layout_val :: "layout_ref \<Rightarrow> jsval" where
  "layout_val (LFun f) = fn_val f"
| "layout_val (LName n) = Str n"

fun component_val :: "component_ref \<Rightarrow> jsval" where
  "component_val (CFun f) = fn_val f"
| "component_val (CName n) = Str n"

text \<open>
  The options of \<open>addRoute\<close>, as passed: \<open>Undefined\<close> and \<open>None\<close> stand for an option
  that is omitted. The option \<open>lazy\<close> (a handler loaded with \<open>import\<close>) is
  not modelled: the model covers routes registered with \<open>lazy\<close> unset. \<open>title\<close>, \<open>meta\<close>,
  \<open>transition\<close>, \<open>keepAlive\<close> and \<open>errorBoundary\<close> are kept as data; what the router does
  with them to the document is not modelled.
\<close>

record route_options =
  opt_preload :: jsval
  opt_cache :: jsval
  opt_middleware :: "fn list option"
  opt_title :: jsval
  opt_meta :: jsval
  opt_layout :: "layout_ref option"
  opt_transition :: jsval
  opt_guards :: "fn list option"
  opt_fetchHtml :: jsval
  opt_htmlPath :: "string option"
  opt_template :: "string option"
  opt_component :: "component_ref option"
  opt_scrollToTop :: jsval
  opt_keepAlive :: jsval
  opt_errorBoundary :: jsval

text \<open>
  An entry of \<open>options.children\<close>: a route with its own options and children. The empty
  list stands for a \<open>children\<close> that is omitted.
\<close>

datatype route_def =
  RouteDef (rd_path: string) (rd_handler: handler_src) (rd_options: route_options)
           (rd_children: "route_def list")

record key =
  name :: string
  catchAll :: bool

text \<open>
  The config that \<open>addRoute\<close> stores. \<open>rc_source\<close> is the source of the compiled regex
  \<open>rc_regex\<close>; \<open>rc_htmlPath\<close>, \<open>rc_template\<close>, \<open>rc_layout\<close> and \<open>rc_component\<close> hold
  \<open>None\<close> for \<open>null\<close>.
\<close>

record routeConfig =
  rc_path :: string
  rc_handler :: handler_src
  rc_preload :: jsval
  rc_cache :: bool
  rc_middleware :: "fn list"
  rc_title :: jsval
  rc_meta :: jsval
  rc_layout :: "layout_ref option"
  rc_transition :: jsval
  rc_guards :: "fn list"
  rc_fetchHtml :: jsval
  rc_htmlPath :: "string option"
  rc_template :: "string option"
  rc_component :: "component_ref option"
  rc_nestedRoutes :: "route_def list"
  rc_scrollToTop :: bool
  rc_keepAlive :: jsval
  rc_errorBoundary :: jsval
  rc_regex :: regex
  rc_source :: string
  rc_keys :: "key list"

text \<open>
  The same data as values, for a template that walks the context: an optional string, a
  list of functions, an entry of \<open>children\<close> as the object that was passed, and the
  config object.
\<close>

definition string_or :: "jsval \<Rightarrow> string option \<Rightarrow> jsval" where
  "string_or d x = (case x of None \<Rightarrow> d | Some s \<Rightarrow> Str s)"

definition fns_val :: "fn list option \<Rightarrow> jsval" where
  "fns_val x = (case x of None \<Rightarrow> Undefined | Some fs \<Rightarrow> Arr (map fn_val fs))"

fun child_obj :: "route_def \<Rightarrow> jsval" where
  "child_obj (RouteDef path handler options children) =
     Obj [(''path'', Str path),
          (''handler'', handler_val handler),
          (''preload'', opt_preload options),
          (''cache'', opt_cache options),
          (''middleware'', fns_val (opt_middleware options)),
          (''title'', opt_title options),
          (''meta'', opt_meta options),
          (''layout'', (case opt_layout options of None \<Rightarrow> Undefined | Some l \<Rightarrow> layout_val l)),
          (''transition'', opt_transition options),
          (''guards'', fns_val (opt_guards options)),
          (''fetchHtml'', opt_fetchHtml options),
          (''htmlPath'', string_or Undefined (opt_htmlPath options)),
          (''template'', string_or Undefined (opt_template options)),
          (''component'',
             (case opt_component options of None \<Rightarrow> Undefined | Some c \<Rightarrow> component_val c)),
          (''children'', (if children = [] then Undefined else Arr (map child_obj children))),
          (''scrollToTop'', opt_scrollToTop options),
          (''keepAlive'', opt_keepAlive options),
          (''errorBoundary'', opt_errorBoundary options)]"

definition key_obj :: "key \<Rightarrow> jsval" where
  "key_obj k = Obj [(''name'', Str (name k)), (''catchAll'', Bool (catchAll k))]"

definition route_obj :: "routeConfig \<Rightarrow> jsval" where
  "route_obj config =
     Obj [(''path'', Str (rc_path config)),
          (''handler'', handler_val (rc_handler config)),
          (''preload'', rc_preload config),
          (''cache'', Bool (rc_cache config)),
          (''middleware'', Arr (map fn_val (rc_middleware config))),
          (''title'', rc_title config),
          (''meta'', rc_meta config),
          (''layout'', (case rc_layout config of None \<Rightarrow> Null | Some l \<Rightarrow> layout_val l)),
          (''transition'', rc_transition config),
          (''guards'', Arr (map fn_val (rc_guards config))),
          (''fetchHtml'', rc_fetchHtml config),
          (''htmlPath'', string_or Null (rc_htmlPath config)),
          (''template'', string_or Null (rc_template config)),
          (''lazy'', Bool False),
          (''component'',
             (case rc_component config of None \<Rightarrow> Null | Some c \<Rightarrow> component_val c)),
          (''nestedRoutes'', Arr (map child_obj (rc_nestedRoutes config))),
          (''scrollToTop'', Bool (rc_scrollToTop config)),
          (''keepAlive'', rc_keepAlive config),
          (''errorBoundary'', rc_errorBoundary config),
          (''regex'', Rx (rc_source config)),
          (''keys'', Arr (map key_obj (rc_keys config)))]"

section \<open>Compiling and matching route patterns\<close>

text \<open>The regex literals of the source, item by item.\<close>

definition catchAllRouteRegex :: regex where
  "catchAllRouteRegex =
     [Ch (Only CHR ''[''), Ch (Only CHR ''.''), Ch (Only CHR ''.''), Ch (Only CHR ''.''),
      Cap (NotCh CHR '']'') 1, Ch (Only CHR '']'')]"

definition dynamicRouteRegex :: regex where
  "dynamicRouteRegex = [Ch (Only CHR ''[''), Cap (NotCh CHR '']'') 1, Ch (Only CHR '']'')]"

text \<open>\<open>/[-\/\\^$*+?.()|[\]{}]/g\<close>\<close>

definition escapeRegex :: regex where
  "escapeRegex = [Ch (OneOf syntax_chars)]"

text \<open>\<open>/\\\(\\\.\\\*\\\)/g\<close>: a backslash before each of \<open>(\<close>, \<open>.\<close>, \<open>*\<close>, \<open>)\<close>.\<close>

definition restoreCatchAllRegex :: regex where
  "restoreCatchAllRegex =
     [Ch (Only (CHR 0x5C)), Ch (Only CHR ''(''), Ch (Only (CHR 0x5C)), Ch (Only CHR ''.''),
      Ch (Only (CHR 0x5C)), Ch (Only CHR ''*''), Ch (Only (CHR 0x5C)), Ch (Only CHR '')'')]"

text \<open>
  \<open>/\\\(\\\[\\^\\\/\\\]\\\+\\\)/g\<close>: in the source the caret is preceded by two
  backslashes, not three, so the regex reads: backslash, \<open>(\<close>, backslash, \<open>[\<close>,
  backslash, the assertion \<open>^\<close>, backslash, \<open>/\<close>, backslash, \<open>]\<close>, backslash, \<open>+\<close>,
  backslash, \<open>)\<close>.
\<close>

definition restoreDynamicRegex :: regex where
  "restoreDynamicRegex =
     [Ch (Only (CHR 0x5C)), Ch (Only CHR ''(''), Ch (Only (CHR 0x5C)), Ch (Only CHR ''[''),
      Ch (Only (CHR 0x5C)), Bol, Ch (Only (CHR 0x5C)), Ch (Only CHR ''/''),
      Ch (Only (CHR 0x5C)), Ch (Only CHR '']''), Ch (Only (CHR 0x5C)), Ch (Only CHR ''+''),
      Ch (Only (CHR 0x5C)), Ch (Only CHR '')'')]"

text \<open>The source text that \<open>pathToRegex\<close> hands to \<open>new RegExp\<close>.\<close>

definition pathToRegex_source :: "string \<Rightarrow> string" where
  "pathToRegex_source path =
     (let pattern = regex_replace catchAllRouteRegex ''(.*)'' path;
          pattern = regex_replace dynamicRouteRegex ''([^/]+)'' pattern;
          pattern = regex_replace escapeRegex (CHR 0x5C # ''$&'') pattern;
          pattern = regex_replace restoreCatchAllRegex ''(.*)'' pattern;
          pattern = regex_replace restoreDynamicRegex ''([^/]+)'' pattern
      in ''^'' @ pattern @ ''$'')"

definition pathToRegex :: "string \<Rightarrow> regex option" where
  "pathToRegex path = RegExp (pathToRegex_source path)"

text \<open>
  A loop \<open>while ((match = re.exec(path)) !== null)\<close> over a global regex visits the
  leftmost non-overlapping matches; \<open>exec_all\<close> lists their groups. (A regex that could
  match the empty string would make that loop run forever; the two regexes of
  \<open>extractKeys\<close> consume at least three characters.)
\<close>

fun exec_all :: "regex \<Rightarrow> nat \<Rightarrow> string \<Rightarrow> string list list" where
  "exec_all r pos [] = []"
| "exec_all r pos (x # xs) =
     (case rx_at r pos (x # xs) of
        None \<Rightarrow> exec_all r (Suc pos) xs
      | Some (caps, n) \<Rightarrow>
          if n = 0 then exec_all r (Suc pos) xs
          else caps # exec_all r (pos + n) (drop (n - 1) xs))"

definition extractKeys :: "string \<Rightarrow> key list" where
  "extractKeys path =
     [\<lparr>name = n, catchAll = True\<rparr>. n # _ \<leftarrow> exec_all catchAllRouteRegex 0 path] @
     [\<lparr>name = n, catchAll = False\<rparr>.
        n # _ \<leftarrow> exec_all dynamicRouteRegex 0 path, take 3 n \<noteq> ''...'']"

text \<open>\<open>matches[i]\<close> of a match result \<open>[whole, group1, ...]\<close>.\<close>

definition match_index :: "string \<times> string list \<Rightarrow> nat \<Rightarrow> jsval" where
  "match_index m i =
     (if i = 0 then Str (fst m)
      else if i \<le> length (snd m) then Str (snd m ! (i - 1))
      else Undefined)"

fun assign_params ::
  "string \<times> string list \<Rightarrow> key list \<Rightarrow> nat \<Rightarrow> (string \<times> jsval) list \<Rightarrow> (string \<times> jsval) list"
  where
  "assign_params m [] index params = params"
| "assign_params m (k # ks) index params =
     assign_params m ks (Suc index) (assign_property (name k) (match_index m (index + 1)) params)"

definition extractParams :: "string \<Rightarrow> routeConfig \<Rightarrow> (string \<times> jsval) list" where
  "extractParams pathname config =
     (case rx_exec (rc_regex config) 0 pathname of
        None \<Rightarrow> []
      | Some m \<Rightarrow> assign_params m (rc_keys config) 0 [])"

text \<open>
  \<open>matchRoute\<close>: the first loop over the routes, then the loop over the shortened
  paths, each with its inner loop over the routes.
\<close>

fun first_match :: "(string \<times> routeConfig) list \<Rightarrow> string \<Rightarrow> (string \<times> routeConfig) option"
  where
  "first_match [] pathname = None"
| "first_match ((path, config) # rest) pathname =
     (if rx_test (rc_regex config) pathname then Some (path, config)
      else first_match rest pathname)"

fun nested_match ::
  "(string \<times> routeConfig) list \<Rightarrow> string list \<Rightarrow> nat \<Rightarrow> (string \<times> routeConfig) option"
  where
  "nested_match rs segments 0 = None"
| "nested_match rs segments (Suc i) =
     (case first_match rs (''/'' @ join ''/'' (take (Suc i) segments)) of
        Some r \<Rightarrow> Some r
      | None \<Rightarrow> nested_match rs segments i)"

definition matchRoute ::
  "(string \<times> routeConfig) list \<Rightarrow> string \<Rightarrow> (string \<times> routeConfig) option" where
  "matchRoute rs pathname =
     (case first_match rs pathname of
        Some r \<Rightarrow> Some r
      | None \<Rightarrow>
          (let segments = filter (\<lambda>w. w \<noteq> []) (split_on CHR ''/'' pathname)
           in nested_match rs segments (length segments)))"



section \<open>The router and its environment\<close>

text \<open>
  The fields of \<open>VelocityRouter\<close> that navigation reads and writes, followed by the
  part of the browser that it acts on: the engine, the current location (pathname and
  search), the server behind \<open>fetch\<close>, the content of the mount element \<open>#app\<close>, the
  calls of \<open>renderContent\<close> (their arguments, in order), the calls of
  \<open>history.pushState\<close> and \<open>history.replaceState\<close>, the pending \<open>setTimeout\<close> callbacks,
  the loading indicator, and what was passed to the logger. Scroll positions, page title
  and meta tags, transition effects, event listeners and the scripts of a rendered page
  are not modelled.

  Each \<open>async\<close> function is modelled as running to completion. The one interleaving
  that the source provides for, a call of \<open>navigate\<close> while another navigation is
  awaiting, is expressed by the parts \<open>navigate_begin\<close> and \<open>navigate_end\<close> of \<open>navigate\<close>.
\<close>

record nav_options =
  opt_replace :: bool
  opt_force :: bool

datatype fetch_result = NetworkError string | Response bool nat string

datatype hist_entry = PushState string | ReplaceState string

datatype level = Debug | Info | Warn | Err

record router =
  routes :: "(string \<times> routeConfig) list"
  middlewares :: "handler list"
  currentRoute :: "(nav_context \<times> routeConfig) option"
  pageCache :: "(string option \<times> jsval) list"
  layoutCache :: "(string \<times> jsval) list"
  routeParams :: "(string \<times> jsval) list"
  queryParams :: "(string \<times> jsval) list"
  layouts :: "(string \<times> handler) list"
  routeGuards :: "(string \<times> handler list) list"
  routeComponents :: "(string \<times> handler) list"
  defaultLayout :: "layout_ref option"
  isTransitioning :: bool
  transitionQueue :: "(string \<times> nav_options) list"
  engine :: engine
  location :: string
  server :: "string \<Rightarrow> fetch_result"
  mount :: jsval
  rendered :: "jsval list"
  history :: "hist_entry list"
  timers :: "(string \<times> nav_options) list"
  loading :: bool
  logger :: "(level \<times> string) list"

definition log :: "level \<Rightarrow> string \<Rightarrow> router \<Rightarrow> router" where
  "log lvl msg s = s\<lparr>logger := logger s @ [(lvl, msg)]\<rparr>"

text \<open>The router as the constructor leaves it, in a given environment.\<close>

definition new_router :: "engine \<Rightarrow> string \<Rightarrow> (string \<Rightarrow> fetch_result) \<Rightarrow> router" where
  "new_router e loc srv =
     \<lparr>routes = [], middlewares = [], currentRoute = None, pageCache = [], layoutCache = [],
      routeParams = [], queryParams = [], layouts = [], routeGuards = [],
      routeComponents = [], defaultLayout = None, isTransitioning = False,
      transitionQueue = [], engine = e, location = loc, server = srv, mount = Str [],
      rendered = [], history = [], timers = [], loading = False, logger = []\<rparr>"

subsection \<open>Registration\<close>

fun layout_truthy :: "layout_ref \<Rightarrow> bool" where
  "layout_truthy (LFun f) = True"
| "layout_truthy (LName n) = (n \<noteq> [])"

fun component_truthy :: "component_ref \<Rightarrow> bool" where
  "component_truthy (CFun f) = True"
| "component_truthy (CName n) = (n \<noteq> [])"

text \<open>\<open>x || null\<close> for an optional string, an optional layout and an optional component.\<close>

definition truthy_layout :: "layout_ref option \<Rightarrow> layout_ref option" where
  "truthy_layout x =
     (case x of None \<Rightarrow> None | Some l \<Rightarrow> if layout_truthy l then Some l else None)"

definition truthy_component :: "component_ref option \<Rightarrow> component_ref option" where
  "truthy_component x =
     (case x of None \<Rightarrow> None | Some c \<Rightarrow> if component_truthy c then Some c else None)"

definition or_null :: "string option \<Rightarrow> string option" where
  "or_null x = (case x of None \<Rightarrow> None | Some v \<Rightarrow> if v = [] then None else Some v)"

definition joinPaths :: "string \<Rightarrow> string \<Rightarrow> string" where
  "joinPaths parent child =
     (let cleanParent = (if parent \<noteq> [] \<and> last parent = CHR ''/'' then butlast parent else parent);
          cleanChild = (case child of [] \<Rightarrow> [] | c # t \<Rightarrow> if c = CHR ''/'' then t else child)
      in cleanParent @ ''/'' @ cleanChild)"

definition make_config ::
  "router \<Rightarrow> string \<Rightarrow> handler_src \<Rightarrow> route_options \<Rightarrow> route_def list \<Rightarrow> regex \<Rightarrow> routeConfig"
  where
  "make_config s path handler options children re =
     \<lparr>rc_path = path,
      rc_handler = handler,
      rc_preload = or_else (opt_preload options) (Bool False),
      rc_cache = (opt_cache options \<noteq> Bool False),
      rc_middleware = (case opt_middleware options of None \<Rightarrow> [] | Some fs \<Rightarrow> fs),
      rc_title = or_else (opt_title options) (Str []),
      rc_meta = or_else (opt_meta options) (Obj []),
      rc_layout = (case truthy_layout (opt_layout options) of
                     None \<Rightarrow> defaultLayout s
                   | Some l \<Rightarrow> Some l),
      rc_transition = or_else (opt_transition options) (Str ''fade''),
      rc_guards = (case opt_guards options of None \<Rightarrow> [] | Some fs \<Rightarrow> fs),
      rc_fetchHtml = or_else (opt_fetchHtml options) (Bool False),
      rc_htmlPath = or_null (opt_htmlPath options),
      rc_template = or_null (opt_template options),
      rc_component = truthy_component (opt_component options),
      rc_nestedRoutes = children,
      rc_scrollToTop = (opt_scrollToTop options \<noteq> Bool False),
      rc_keepAlive = or_else (opt_keepAlive options) (Bool False),
      rc_errorBoundary = or_else (opt_errorBoundary options) Null,
      rc_regex = re,
      rc_source = pathToRegex_source path,
      rc_keys = extractKeys path\<rparr>"

text \<open>
  \<open>addRoute(path, handler, options)\<close>, with \<open>options.children\<close> as the argument
  \<open>children\<close>. The children are registered before the route itself is stored.
  \<open>Inl\<close> is the error that \<open>new RegExp\<close> throws.
\<close>

fun addRoute ::
  "string \<Rightarrow> handler_src \<Rightarrow> route_options \<Rightarrow> route_def list \<Rightarrow> router \<Rightarrow> error + router"
  and addNestedRoutes :: "string \<Rightarrow> route_def list \<Rightarrow> router \<Rightarrow> error + router" where
  "addRoute path handler options children s =
     (case pathToRegex path of
        None \<Rightarrow> Inl (Error ''Invalid regular expression'')
      | Some re \<Rightarrow>
          (case (if children \<noteq> [] then addNestedRoutes path children s else Inr s) of
             Inl e \<Rightarrow> Inl e
           | Inr s' \<Rightarrow>
               Inr (log Info (''Route added: '' @ path)
                     (s'\<lparr>routes :=
                          map_set path (make_config s path handler options children re)
                                  (routes s')\<rparr>))))"
| "addNestedRoutes parentPath [] s = Inr s"
| "addNestedRoutes parentPath (RouteDef cpath chandler coptions cchildren # cs) s =
     (case addRoute (joinPaths parentPath cpath) chandler coptions cchildren s of
        Inl e \<Rightarrow> Inl e
      | Inr s' \<Rightarrow> addNestedRoutes parentPath cs s')"

text \<open>The default \<open>options = {}\<close> of \<open>addRoute\<close> and of \<open>navigate\<close>.\<close>

definition no_options :: route_options where
  "no_options =
     \<lparr>opt_preload = Undefined, opt_cache = Undefined, opt_middleware = None,
      opt_title = Undefined, opt_meta = Undefined, opt_layout = None,
      opt_transition = Undefined, opt_guards = None, opt_fetchHtml = Undefined,
      opt_htmlPath = None, opt_template = None, opt_component = None,
      opt_scrollToTop = Undefined, opt_keepAlive = Undefined, opt_errorBoundary = Undefined\<rparr>"

definition no_nav_options :: nav_options where
  "no_nav_options = \<lparr>opt_replace = False, opt_force = False\<rparr>"

definition setDefaultLayout :: "layout_ref option \<Rightarrow> router \<Rightarrow> router" where
  "setDefaultLayout l s = s\<lparr>defaultLayout := l\<rparr>"

definition addLayout :: "string \<Rightarrow> handler \<Rightarrow> router \<Rightarrow> router" where
  "addLayout n layoutHandler s = s\<lparr>layouts := map_set n layoutHandler (layouts s)\<rparr>"

definition addGuard :: "string \<Rightarrow> handler \<Rightarrow> router \<Rightarrow> router" where
  "addGuard path guardFunction s =
     s\<lparr>routeGuards :=
         map_set path
           ((case map_of (routeGuards s) path of None \<Rightarrow> [] | Some gs \<Rightarrow> gs) @ [guardFunction])
           (routeGuards s)\<rparr>"

definition use :: "handler \<Rightarrow> router \<Rightarrow> router" where
  "use middleware s = s\<lparr>middlewares := middlewares s @ [middleware]\<rparr>"

definition registerComponent :: "string \<Rightarrow> handler \<Rightarrow> router \<Rightarrow> router" where
  "registerComponent n componentFunction s =
     s\<lparr>routeComponents := map_set n componentFunction (routeComponents s)\<rparr>"

definition clearCache :: "router \<Rightarrow> router" where
  "clearCache s = log Info ''Route caches cleared'' (s\<lparr>pageCache := [], layoutCache := []\<rparr>)"


subsection \<open>Resolving a path\<close>

definition parseUrl :: "string \<Rightarrow> router \<Rightarrow> string \<times> string" where
  "parseUrl url s =
     (let u = (if url = [] then location s else url)
      in (case split_on CHR ''?'' u of
            [] \<Rightarrow> ([], [])
          | pathname # rest \<Rightarrow> (pathname, (case rest of [] \<Rightarrow> [] | search # _ \<Rightarrow> search))))"

text \<open>
  \<open>new URLSearchParams(search)\<close>: the pairs between ampersands, split at the first
  equals sign; in a name and in a value \<open>+\<close> is read as a space and \<open>%XX\<close> as the byte it
  names, and the bytes are then decoded as UTF-8. When all of them are ASCII that
  decoding changes nothing; otherwise the result is the engine's.
\<close>

definition hex_val :: "char \<Rightarrow> nat option" where
  "hex_val c =
     (let n = (of_char c :: nat) in
      if 48 \<le> n \<and> n \<le> 57 then Some (n - 48)
      else if 65 \<le> n \<and> n \<le> 70 then Some (n - 55)
      else if 97 \<le> n \<and> n \<le> 102 then Some (n - 87)
      else None)"

definition plus_space :: "char \<Rightarrow> char" where
  "plus_space c = (if c = CHR ''+'' then CHR '' '' else c)"

fun percent_decode :: "string \<Rightarrow> string" where
  "percent_decode (c # h1 # h2 # t) =
     (case (if c = CHR ''%'' then hex_val h1 else None, hex_val h2) of
        (Some a, Some b) \<Rightarrow> char_of (16 * a + b) # percent_decode t
      | _ \<Rightarrow> plus_space c # percent_decode (h1 # h2 # t))"
| "percent_decode (c # t) = plus_space c # percent_decode t"
| "percent_decode [] = []"

definition form_decode :: "engine \<Rightarrow> string \<Rightarrow> string" where
  "form_decode e w =
     (if list_all (\<lambda>c. (of_char c :: nat) < 128) (percent_decode w) then percent_decode w
      else form_text e w)"

definition parse_pair :: "engine \<Rightarrow> string \<Rightarrow> string \<times> string" where
  "parse_pair e p =
     (let n = takeWhile (\<lambda>c. c \<noteq> CHR ''='') p
      in (form_decode e n, form_decode e (drop (Suc (length n)) p)))"

definition parseQuery :: "engine \<Rightarrow> string \<Rightarrow> (string \<times> jsval) list" where
  "parseQuery e search =
     (if search = [] then []
      else fold (\<lambda>p params.
                   assign_property (fst (parse_pair e p)) (Str (snd (parse_pair e p))) params)
                (filter (\<lambda>p. p \<noteq> []) (split_on CHR ''&'' search)) [])"

subsection \<open>Guards and middleware\<close>

text \<open>
  \<open>runRouteGuards(path, context)\<close>: the guards stored under the key \<open>path\<close>, in order.
  The second component counts the guards that were called.
\<close>

fun run_guards :: "handler list \<Rightarrow> nav_context \<Rightarrow> bool \<times> nat" where
  "run_guards [] ctx = (True, 0)"
| "run_guards (guard # guards) ctx =
     (case guard ctx of
        Inl e \<Rightarrow> (False, 1)
      | Inr result \<Rightarrow>
          if result = Bool False then (False, 1)
          else (case run_guards guards ctx of (ok, n) \<Rightarrow> (ok, Suc n)))"

fun guard_log :: "handler list \<Rightarrow> nav_context \<Rightarrow> (level \<times> string) list" where
  "guard_log [] ctx = []"
| "guard_log (guard # guards) ctx =
     (case guard ctx of
        Inl e \<Rightarrow> [(Err, ''Route guard error:'')]
      | Inr result \<Rightarrow>
          if result = Bool False then [(Info, ''Navigation blocked by route guard'')]
          else guard_log guards ctx)"

definition guards_for :: "router \<Rightarrow> string \<Rightarrow> handler list" where
  "guards_for s path = (case map_of (routeGuards s) path of None \<Rightarrow> [] | Some gs \<Rightarrow> gs)"

definition runRouteGuards :: "string \<Rightarrow> nav_context \<Rightarrow> router \<Rightarrow> bool \<times> router" where
  "runRouteGuards path ctx s =
     (fst (run_guards (guards_for s path) ctx),
      s\<lparr>logger := logger s @ guard_log (guards_for s path) ctx\<rparr>)"

text \<open>
  The middleware loop of \<open>handleRoute\<close>: \<open>Inl\<close> when a middleware throws, \<open>Inr False\<close>
  when one returns \<open>false\<close>, \<open>Inr True\<close> when all have run.
\<close>

fun run_middlewares :: "handler list \<Rightarrow> nav_context \<Rightarrow> error + bool" where
  "run_middlewares [] ctx = Inr True"
| "run_middlewares (middleware # rest) ctx =
     (case middleware ctx of
        Inl e \<Rightarrow> Inl e
      | Inr result \<Rightarrow> if result = Bool False then Inr False else run_middlewares rest ctx)"

subsection \<open>Content\<close>

definition is_space :: "char \<Rightarrow> bool" where
  "is_space c = (c \<in> set [CHR 0x09, CHR 0x0A, CHR 0x0B, CHR 0x0C, CHR 0x0D, CHR 0x20, CHR 0xA0])"

definition trim :: "string \<Rightarrow> string" where
  "trim s = rev (dropWhile is_space (rev (dropWhile is_space s)))"

text \<open>\<open>/\{\{([^}]+)\}\}/g\<close>\<close>

definition templateRegex :: regex where
  "templateRegex =
     [Ch (Only CHR ''{''), Ch (Only CHR ''{''), Cap (NotCh CHR ''}'') 1,
      Ch (Only CHR ''}''), Ch (Only CHR ''}'')]"

text \<open>The loop \<open>for (const k of keys) value = value?.[k]\<close>.\<close>

definition walk :: "engine \<Rightarrow> jsval \<Rightarrow> string list \<Rightarrow> jsval" where
  "walk e ctx ks = fold (\<lambda>k v. opt_get e v k) ks ctx"

text \<open>
  The replacer of \<open>processHtmlTemplate\<close>. The regex has one group, so \<open>key\<close> is
  always there; the case of no group only makes the function total.
\<close>

definition template_value :: "engine \<Rightarrow> jsval \<Rightarrow> replacer" where
  "template_value e ctx m caps b a =
     (case caps of
        [] \<Rightarrow> m
      | key # _ \<Rightarrow>
          (let ks = split_on CHR ''.'' (trim key);
               v = walk e ctx ks
           in if v \<noteq> Undefined then js_to_string e v else m))"

definition processHtmlTemplate :: "engine \<Rightarrow> string \<Rightarrow> jsval \<Rightarrow> string" where
  "processHtmlTemplate e html ctx = replace_all templateRegex (template_value e ctx) [] html"

text \<open>
  The navigation context as a value. \<open>handleRoute\<close> builds it with the members \<open>path\<close>,
  \<open>fullPath\<close>, \<open>params\<close>, \<open>query\<close>, \<open>route\<close> (the config of the matched route), and with
  the methods \<open>navigate\<close>, \<open>redirect\<close>, \<open>setTitle\<close>, \<open>setMeta\<close> and \<open>getLayoutData\<close> of the
  router bound to it; \<open>handle404\<close> builds it with \<open>path\<close>, \<open>params\<close> and \<open>query\<close> only. The
  argument \<open>route\<close> is the config that is handed on together with the context, \<open>None\<close>
  in the second case.
\<close>

definition context_obj :: "engine \<Rightarrow> nav_context \<Rightarrow> routeConfig option \<Rightarrow> jsval" where
  "context_obj e ctx route =
     Obj ([(''path'', Str (ctx_path ctx))] @
          (case ctx_fullPath ctx of None \<Rightarrow> [] | Some f \<Rightarrow> [(''fullPath'', Str f)]) @
          [(''params'', Obj (ctx_params ctx)), (''query'', Obj (ctx_query ctx))] @
          (case route of
             None \<Rightarrow> []
           | Some config \<Rightarrow>
               [(''route'', route_obj config),
                (''navigate'', Bound ''navigate''),
                (''redirect'', Bound ''redirect''),
                (''setTitle'', Bound ''setTitle''),
                (''setMeta'', Bound ''setMeta''),
                (''getLayoutData'', Bound ''getLayoutData'')]))"

text \<open>
  \<open>fetch(url)\<close> followed by the check of \<open>response.ok\<close> and by \<open>response.text()\<close>.
  The table \<open>loadingPromises\<close>, which shares one request between concurrent callers,
  is empty whenever a navigation that runs to completion looks at it.
\<close>

definition fetch_text :: "string \<Rightarrow> string \<Rightarrow> router \<Rightarrow> error + string" where
  "fetch_text msg url s =
     (case server s url of
        NetworkError e \<Rightarrow> Inl (Error e)
      | Response ok status body \<Rightarrow>
          if ok then Inr body else Inl (Error (msg @ show_nat status)))"

definition fetchHtmlPage ::
  "string \<Rightarrow> nav_context \<Rightarrow> routeConfig option \<Rightarrow> router \<Rightarrow> (error + jsval) \<times> router" where
  "fetchHtmlPage htmlPath ctx route s =
     (let s1 = log Info ''Fetching HTML page:'' s
      in (case fetch_text ''Failed to fetch HTML page: '' htmlPath s1 of
            Inl e \<Rightarrow> (Inl e, log Err ''Failed to fetch HTML page:'' s1)
          | Inr html \<Rightarrow>
              (Inr (Str (processHtmlTemplate (engine s) html (context_obj (engine s) ctx route))),
               s1)))"

definition loadPage :: "string \<Rightarrow> router \<Rightarrow> (error + jsval) \<times> router" where
  "loadPage pageUrl s =
     (case fetch_text ''Failed to load page: '' pageUrl s of
        Inl e \<Rightarrow> (Inl e, s)
      | Inr html \<Rightarrow> (Inr (Str html), s))"

definition renderComponent :: "component_ref \<Rightarrow> nav_context \<Rightarrow> router \<Rightarrow> error + jsval" where
  "renderComponent component ctx s =
     (case component of
        CFun f \<Rightarrow> fn_call f ctx
      | CName n \<Rightarrow>
          (case map_of (routeComponents s) n of
             Some componentFunc \<Rightarrow> componentFunc ctx
           | None \<Rightarrow> Inl (Error (''Component not found: '' @ n))))"

text \<open>
  \<open>getRouteContent(routeConfig, context)\<close>. The context has a member \<open>route\<close> exactly
  when \<open>ctx_route\<close> is set, and that member is then \<open>routeConfig\<close>.
\<close>

definition getRouteContent :: "routeConfig \<Rightarrow> nav_context \<Rightarrow> router \<Rightarrow> (error + jsval) \<times> router"
  where
  "getRouteContent routeConfig ctx s =
     (let s1 = log Debug ''Getting route content for config:'' s
      in (case (if truthy (rc_fetchHtml routeConfig)
                then (case or_null (rc_htmlPath routeConfig) of
                        Some p \<Rightarrow> Some p
                      | None \<Rightarrow> or_null (rc_template routeConfig))
                else None) of
            Some htmlPath \<Rightarrow>
              fetchHtmlPage htmlPath ctx
                (if ctx_route ctx = None then None else Some routeConfig)
                (log Debug ''Fetching HTML from:'' s1)
          | None \<Rightarrow>
              (case truthy_component (rc_component routeConfig) of
                 Some c \<Rightarrow> (renderComponent c ctx s1, log Debug ''Rendering component:'' s1)
               | None \<Rightarrow>
                   (case rc_handler routeConfig of
                      HFun f \<Rightarrow> (fn_call f ctx, log Debug ''Executing function handler'' s1)
                    | HStr url \<Rightarrow> loadPage url (log Debug ''Loading page from URL:'' s1)
                    | HOther v \<Rightarrow>
                        (Inl (Error ''Invalid route handler''),
                         log Err ''No valid route handler found. Route config:'' s1)))))"


subsection \<open>Layout and rendering\<close>

definition renderContent :: "jsval \<Rightarrow> router \<Rightarrow> router" where
  "renderContent content s =
     (s\<lparr>mount := (case content of
                     Str html \<Rightarrow> content
                   | Elem x \<Rightarrow> content
                   | _ \<Rightarrow> mount s),
        rendered := rendered s @ [content]\<rparr>)"

fun layout_text :: "layout_ref \<Rightarrow> string" where
  "layout_text (LFun f) = fn_text f"
| "layout_text (LName n) = n"

text \<open>
  \<open>x.replace('{{content}}', content)\<close>, where \<open>x\<close> is the variable \<open>receiver\<close> and holds
  \<open>layoutContent\<close>. On a string this is \<open>String.prototype.replace\<close> with a string
  pattern: only the first occurrence is replaced; content that is not a function is
  converted to a string and expanded as a replacement pattern; content that is a function
  is called for the occurrence, if there is one. On anything but a string the outcome
  is the engine's.
\<close>

definition callable :: "jsval \<Rightarrow> bool" where
  "callable v = (case v of Fun src \<Rightarrow> True | Bound m \<Rightarrow> True | _ \<Rightarrow> False)"

definition fill_layout :: "engine \<Rightarrow> string \<Rightarrow> jsval \<Rightarrow> jsval \<Rightarrow> error + jsval" where
  "fill_layout e receiver layoutContent content =
     (case layoutContent of
        Str l \<Rightarrow>
          if callable content
          then (case find_first ''{{content}}'' [] l of
                  None \<Rightarrow> Inr (Str l)
                | Some (b, a) \<Rightarrow>
                    (case call_replacer e content ''{{content}}'' (length b) l of
                       Inl err \<Rightarrow> Inl err
                     | Inr r \<Rightarrow> Inr (Str (b @ r @ a))))
          else Inr (Str (string_replace ''{{content}}'' (js_to_string e content) l))
      | _ \<Rightarrow> replace_on e receiver layoutContent content)"

definition applyLayout ::
  "layout_ref \<Rightarrow> jsval \<Rightarrow> nav_context \<Rightarrow> router \<Rightarrow> (error + jsval) \<times> router" where
  "applyLayout layoutName content ctx s =
     (case (case layoutName of
              LFun f \<Rightarrow> Some (fn_call f)
            | LName n \<Rightarrow> map_of (layouts s) n) of
        None \<Rightarrow> (Inr content, log Warn ''Layout not found:'' s)
      | Some layoutHandler \<Rightarrow>
          (let layoutCacheKey = layout_text layoutName @ ''_'' @ ctx_path ctx
           in (case map_of (layoutCache s) layoutCacheKey of
                 Some cachedLayout \<Rightarrow>
                   (fill_layout (engine s) ''cachedLayout'' cachedLayout content, s)
               | None \<Rightarrow>
                   (case layoutHandler ctx of
                      Inl e \<Rightarrow> (Inr content, log Err ''Layout rendering failed:'' s)
                    | Inr layoutContent \<Rightarrow>
                        (let s1 = s\<lparr>layoutCache :=
                                       map_set layoutCacheKey layoutContent (layoutCache s)\<rparr>
                         in (case fill_layout (engine s) ''layoutContent'' layoutContent content of
                               Inl e \<Rightarrow> (Inr content, log Err ''Layout rendering failed:'' s1)
                             | Inr filled \<Rightarrow> (Inr filled, s1)))))))"

definition handleRouteError :: "error \<Rightarrow> nav_context \<Rightarrow> router \<Rightarrow> router" where
  "handleRouteError e ctx s =
     (case e of
        Error message \<Rightarrow>
          renderContent
            (Str (''<h1>Route Error</h1><p>Failed to load '' @ ctx_path ctx @ ''</p><p>'' @
                  message @ ''</p>''))
            (log Err ''Route error:'' s))"

text \<open>
  The first part of \<open>executeRouteWithLayout\<close>: the content from the page cache, or from
  \<open>getRouteContent\<close> and then stored when the route caches and the content is truthy.
\<close>

definition cached_content :: "routeConfig \<Rightarrow> nav_context \<Rightarrow> router \<Rightarrow> (error + jsval) \<times> router"
  where
  "cached_content routeConfig ctx s =
     (let cacheKey = ctx_fullPath ctx
      in (case (if rc_cache routeConfig then map_of (pageCache s) cacheKey else None) of
            Some content \<Rightarrow> (Inr content, log Info ''Loaded from cache:'' s)
          | None \<Rightarrow>
              (case getRouteContent routeConfig ctx s of
                 (Inl e, s1) \<Rightarrow> (Inl e, s1)
               | (Inr content, s1) \<Rightarrow>
                   (Inr content,
                    if rc_cache routeConfig \<and> truthy content
                    then s1\<lparr>pageCache := map_set cacheKey content (pageCache s1)\<rparr>
                    else s1))))"

definition executeRouteWithLayout :: "routeConfig \<Rightarrow> nav_context \<Rightarrow> router \<Rightarrow> router" where
  "executeRouteWithLayout routeConfig ctx s =
     (case cached_content routeConfig ctx s of
        (Inl e, s1) \<Rightarrow> handleRouteError e ctx (log Err ''Route execution failed'' s1)
      | (Inr content, s1) \<Rightarrow>
          (case (case truthy_layout (rc_layout routeConfig) of
                   None \<Rightarrow> (Inr content, s1)
                 | Some l \<Rightarrow> applyLayout l content ctx s1) of
             (Inl e, s2) \<Rightarrow> handleRouteError e ctx (log Err ''Route execution failed'' s2)
           | (Inr page, s2) \<Rightarrow> renderContent page s2))"

text \<open>
  \<open>handle404\<close> starts \<open>executeRouteWithLayout\<close> on the route \<open>*\<close> or \<open>/404\<close> without
  awaiting it, with a context that has no \<open>fullPath\<close>; here it completes at once.
\<close>

definition handle404 :: "string \<Rightarrow> router \<Rightarrow> router" where
  "handle404 pathname s =
     (let s1 = log Warn ''Route not found:'' s;
          ctx = \<lparr>ctx_path = pathname, ctx_fullPath = None, ctx_params = [], ctx_query = [],
                 ctx_route = None\<rparr>
      in (case (case map_of (routes s1) ''*'' of
                  Some c \<Rightarrow> Some c
                | None \<Rightarrow> map_of (routes s1) ''/404'') of
            Some notFoundRoute \<Rightarrow> executeRouteWithLayout notFoundRoute ctx s1
          | None \<Rightarrow>
              renderContent
                (Str ''<h1>404 - Page Not Found</h1><p>The requested page could not be found.</p>'')
                s1))"

subsection \<open>Navigation\<close>

text \<open>
  \<open>handleRoute(fullPath)\<close>. The first component of the result is the error that
  escapes, if any: only a middleware can make one escape, since guards and content are
  wrapped in \<open>try\<close>.
\<close>

definition handleRoute :: "string \<Rightarrow> router \<Rightarrow> error option \<times> router" where
  "handleRoute fullPath s =
     (case parseUrl fullPath s of
        (pathname, search) \<Rightarrow>
          (case matchRoute (routes s) pathname of
             None \<Rightarrow> (None, handle404 pathname s)
           | Some (rpath, config) \<Rightarrow>
               (let params = extractParams pathname config;
                    query = parseQuery (engine s) search;
                    s1 = s\<lparr>routeParams := params, queryParams := query\<rparr>;
                    ctx = \<lparr>ctx_path = pathname, ctx_fullPath = Some fullPath,
                           ctx_params = params, ctx_query = query,
                           ctx_route = Some (rc_path config)\<rparr>
                in (case runRouteGuards pathname ctx s1 of
                      (False, s2) \<Rightarrow> (None, s2)
                    | (True, s2) \<Rightarrow>
                        (case run_middlewares
                                (middlewares s2 @ map fn_call (rc_middleware config)) ctx of
                           Inl e \<Rightarrow> (Some e, s2)
                         | Inr False \<Rightarrow> (None, log Info ''Navigation blocked by middleware'' s2)
                         | Inr True \<Rightarrow>
                             (None,
                              executeRouteWithLayout config ctx
                                (s2\<lparr>currentRoute := Some (ctx, config)\<rparr>)))))))"

definition handleRouteWithTransition :: "string \<Rightarrow> router \<Rightarrow> error option \<times> router" where
  "handleRouteWithTransition path s =
     (case parseUrl path s of
        (pathname, search) \<Rightarrow>
          (case matchRoute (routes s) pathname of
             None \<Rightarrow> (None, handle404 pathname s)
           | Some route \<Rightarrow> handleRoute path s))"

text \<open>
  \<open>navigate(path, options)\<close> in three parts: up to the \<open>await\<close> (\<open>Inl\<close> when the call
  returns early, \<open>Inr\<close> when the navigation is in flight), the awaited
  \<open>handleRouteWithTransition\<close>, and what follows it: the rest of the \<open>try\<close> block when
  nothing was thrown, the \<open>catch\<close> block otherwise. The call of \<open>pushState\<close> or
  \<open>replaceState\<close> moves \<open>window.location\<close>.
\<close>

definition navigate_begin :: "string \<Rightarrow> nav_options \<Rightarrow> router \<Rightarrow> router + router" where
  "navigate_begin path options s =
     (let s0 = log Info (''Navigating to: '' @ path) s
      in if isTransitioning s0 \<and> \<not> opt_force options
         then Inl (s0\<lparr>transitionQueue := transitionQueue s0 @ [(path, options)]\<rparr>)
         else if (case currentRoute s0 of
                    None \<Rightarrow> False
                  | Some (ctx, config) \<Rightarrow> ctx_fullPath ctx = Some path) \<and>
                 \<not> opt_force options
         then Inl (log Info ''Already on route, skipping navigation'' s0)
         else Inr (s0\<lparr>isTransitioning := True, loading := True\<rparr>))"

definition handleNavigationError :: "error \<Rightarrow> string \<Rightarrow> router \<Rightarrow> router" where
  "handleNavigationError e path s =
     (case e of
        Error message \<Rightarrow>
          renderContent
            (Str (''<h1>Navigation Error</h1><p>Failed to navigate to '' @ path @ ''</p><p>'' @
                  message @ ''</p>''))
            (log Err ''Navigation error:'' s))"

definition navigate_end :: "string \<Rightarrow> nav_options \<Rightarrow> error option \<Rightarrow> router \<Rightarrow> router" where
  "navigate_end path options thrown s =
     (case thrown of
        None \<Rightarrow>
          (let s1 = s\<lparr>history := history s @
                                   [if opt_replace options then ReplaceState path
                                    else PushState path],
                       location := new_location (engine s) (location s) path,
                       loading := False, isTransitioning := False\<rparr>
           in (case transitionQueue s1 of
                 [] \<Rightarrow> s1
               | next # rest \<Rightarrow> s1\<lparr>transitionQueue := rest, timers := timers s1 @ [next]\<rparr>))
      | Some e \<Rightarrow>
          handleNavigationError e path
            (log Err ''Navigation failed'' (s\<lparr>loading := False, isTransitioning := False\<rparr>)))"

definition navigate :: "string \<Rightarrow> nav_options \<Rightarrow> router \<Rightarrow> router" where
  "navigate path options s =
     (case navigate_begin path options s of
        Inl s' \<Rightarrow> s'
      | Inr s1 \<Rightarrow>
          (case handleRouteWithTransition path s1 of
             (thrown, s2) \<Rightarrow> navigate_end path options thrown s2))"

text \<open>A pending \<open>setTimeout(() => this.navigate(next.path, next.options), 0)\<close> fires.\<close>

definition run_timer :: "router \<Rightarrow> router" where
  "run_timer s =
     (case timers s of
        [] \<Rightarrow> s
      | (path, options) # rest \<Rightarrow> navigate path options (s\<lparr>timers := rest\<rparr>))"

section \<open>Notions used to state the properties\<close>

text \<open>
  The number of content acquisitions so far: \<open>getRouteContent\<close> writes one line to the
  debug log each time it is entered, before anything else. The number of reads of the
  page cache so far: \<open>executeRouteWithLayout\<close> writes one line to the log each time it
  takes the content from the cache.
\<close>

definition acquisitions :: "router \<Rightarrow> nat" where
  "acquisitions s =
     length (filter (\<lambda>entry. snd entry = ''Getting route content for config:'') (logger s))"

definition cache_reads :: "router \<Rightarrow> nat" where
  "cache_reads s = length (filter (\<lambda>entry. snd entry = ''Loaded from cache:'') (logger s))"

text \<open>
  The specification of \<open>matchRoute\<close> in its own words: the candidates are the pathname
  itself and then the pathname shortened segment by segment, from all of its segments
  down to one; the result is the first route, in the order of the route map, that accepts
  the first candidate that any route accepts.
\<close>

definition accepts :: "string \<times> routeConfig \<Rightarrow> string \<Rightarrow> bool" where
  "accepts route pathname = rx_test (rc_regex (snd route)) pathname"

definition shortened_paths :: "string \<Rightarrow> string list" where
  "shortened_paths pathname =
     (let segments = filter (\<lambda>w. w \<noteq> []) (split_on CHR ''/'' pathname)
      in map (\<lambda>k. ''/'' @ join ''/'' (take k segments)) (rev [1 ..< Suc (length segments)]))"

definition matchRoute_spec ::
  "(string \<times> routeConfig) list \<Rightarrow> string \<Rightarrow> (string \<times> routeConfig) option" where
  "matchRoute_spec rs pathname =
     first_some (map (\<lambda>candidate. find (\<lambda>route. accepts route candidate) rs)
                     (pathname # shortened_paths pathname))"

text \<open>
  What the escaping pass of \<open>pathToRegex\<close> makes of one character.
\<close>

definition esc_char :: "char \<Rightarrow> string" where
  "esc_char c = (if c \<in> set syntax_chars then [CHR 0x5C, c] else [c])"

text \<open>
  Template substitution in its own words. A placeholder starts at a position of the text
  where two opening braces are followed by one or more characters other than a closing
  brace, as many as there are, and then by two closing braces; its key is what stands
  between the braces. \<open>expand\<close> reads the text from left to right: where a placeholder
  starts, it puts the string form of the value found by walking the context along the
  trimmed key split at its dots, or the placeholder itself when that value is
  \<open>undefined\<close>, and goes on behind the placeholder; any other character is kept.
\<close>

definition placeholder_key :: "string \<Rightarrow> string option" where
  "placeholder_key s =
     (let key = takeWhile (\<lambda>c. c \<noteq> CHR ''}'') (drop 2 s)
      in if take 2 s = ''{{'' \<and> key \<noteq> [] \<and> take 2 (drop (length key + 2) s) = ''}}''
         then Some key else None)"

fun expand :: "engine \<Rightarrow> jsval \<Rightarrow> string \<Rightarrow> string" where
  "expand e ctx [] = []"
| "expand e ctx (c # t) =
     (case placeholder_key (c # t) of
        None \<Rightarrow> c # expand e ctx t
      | Some key \<Rightarrow>
          (if walk e ctx (split_on CHR ''.'' (trim key)) \<noteq> Undefined
           then js_to_string e (walk e ctx (split_on CHR ''.'' (trim key)))
           else ''{{'' @ key @ ''}}'') @
          expand e ctx (drop (length key + 3) t))"

text \<open>
  Navigations. \<open>resolved path s\<close> is the config of the route that a navigation to \<open>path\<close>
  is resolved to, \<open>navigation_context\<close> the context that \<open>handleRoute\<close> builds for it, and
  \<open>acquired\<close> what content acquisition returns or throws for it. A navigation is carried
  out when \<open>navigate\<close> neither queues it behind a navigation in flight nor skips it as
  already current. It commits when it is carried out, is resolved to a route, and no
  guard and no middleware rejects it or throws: then, and only then, \<open>handleRoute\<close> sets
  the current route and goes on to the content. \<open>navigations\<close> is a sequence of calls of
  \<open>navigate\<close>, each running to completion.
\<close>

definition resolved :: "string \<Rightarrow> router \<Rightarrow> routeConfig option" where
  "resolved path s = map_option snd (matchRoute (routes s) (fst (parseUrl path s)))"

definition navigation_context :: "string \<Rightarrow> routeConfig \<Rightarrow> router \<Rightarrow> nav_context" where
  "navigation_context path config s =
     \<lparr>ctx_path = fst (parseUrl path s), ctx_fullPath = Some path,
      ctx_params = extractParams (fst (parseUrl path s)) config,
      ctx_query = parseQuery (engine s) (snd (parseUrl path s)),
      ctx_route = Some (rc_path config)\<rparr>"

definition acquired :: "string \<Rightarrow> routeConfig \<Rightarrow> router \<Rightarrow> error + jsval" where
  "acquired path config s = fst (getRouteContent config (navigation_context path config s) s)"

definition carried_out :: "string \<Rightarrow> nav_options \<Rightarrow> router \<Rightarrow> bool" where
  "carried_out path options s =
     (case navigate_begin path options s of Inl s' \<Rightarrow> False | Inr s1 \<Rightarrow> True)"

definition passes :: "string \<Rightarrow> routeConfig \<Rightarrow> router \<Rightarrow> bool" where
  "passes path config s =
     (fst (run_guards (guards_for s (fst (parseUrl path s))) (navigation_context path config s)) \<and>
      run_middlewares (middlewares s @ map fn_call (rc_middleware config))
        (navigation_context path config s) = Inr True)"

definition commits :: "string \<Rightarrow> nav_options \<Rightarrow> router \<Rightarrow> bool" where
  "commits path options s =
     (carried_out path options s \<and>
      (case resolved path s of None \<Rightarrow> False | Some config \<Rightarrow> passes path config s))"

definition navigations :: "(string \<times> nav_options) list \<Rightarrow> router \<Rightarrow> router" where
  "navigations navs s = foldl (\<lambda>r nav. navigate (fst nav) (snd nav) r) s navs"

text \<open>
  Two router states agree when they have the same number of acquisitions and of cache
  reads and the same page cache, and the same engine, server and registered components.
\<close>

definition agree :: "router \<Rightarrow> router \<Rightarrow> bool" where
  "agree s s' =
     (acquisitions s' = acquisitions s \<and> cache_reads s' = cache_reads s \<and>
      pageCache s' = pageCache s \<and> engine s' = engine s \<and> server s' = server s \<and>
      routeComponents s' = routeComponents s)"

text \<open>
  An engine for the examples. The examples reach two of its members: \<open>inherited\<close>, for
  the names \<open>for templates\<close> and \<open>missing\<close> on a plain object, which browsers do not find
  either, and \<open>new_location\<close>, for an absolute path without a fragment, which is then the
  location. They reach none of the others.
\<close>

definition browser :: engine where
  "browser =
     \<lparr>inherited = (\<lambda>v k. Undefined),
      bound_text = (\<lambda>m. ''function () { [native code] }''),
      number_text = show_int,
      object_text = (\<lambda>v. ''[object Object]''),
      form_text = (\<lambda>w. w),
      new_location = (\<lambda>l u. u),
      replace_on = (\<lambda>x v c. Inl (Error (x @ ''.replace is not a function''))),
      call_replacer = (\<lambda>f m i w. Inr ''undefined'')\<rparr>"


section \<open>Facts about the host-language model\<close>

lemma first_some_None_iff: "first_some xs = None \<longleftrightarrow> (\<forall>x \<in> set xs. x = None)"
  by (induction xs rule: first_some.induct) auto

lemma rev_upt_Suc: "m \<le> n \<Longrightarrow> rev [m ..< Suc n] = n # rev [m ..< n]"
  by simp

lemma eq_via: "a = c \<Longrightarrow> b = c \<Longrightarrow> a = b"
  by simp

lemma one_more: "a = b + 1 \<Longrightarrow> b = 0 \<Longrightarrow> a = (1::nat)"
  by simp

lemma map_of_map_set: "map_of (map_set k v ps) k = Some v"
  by (induction ps) auto

lemma map_of_map_set_other: "k' \<noteq> k \<Longrightarrow> map_of (map_set k' v ps) k = map_of ps k"
  by (induction ps) auto

text \<open>A regex without \<open>^\<close> matches the same way at every index.\<close>

lemma rx_at_no_Bol: "Bol \<notin> set r \<Longrightarrow> rx_at r pos s = rx_at r pos' s"
proof (induction r arbitrary: pos pos' s)
  case Nil
  show ?case by simp
next
  case (Cons item r)
  then have ih: "\<And>p p' t. rx_at r p t = rx_at r p' t" by simp
  show ?case
  proof (cases item)
    case (Ch c)
    then show ?thesis using ih [of "Suc pos" _ "Suc pos'"] by (cases s) auto
  next
    case Bol
    with Cons.prems show ?thesis by simp
  next
    case Eol
    then show ?thesis using ih [of pos _ pos'] by simp
  next
    case (Cap c m)
    have "\<And>k. rx_at r (pos + k) (drop k s) = rx_at r (pos' + k) (drop k s)"
      by (rule ih)
    with Cap show ?thesis by simp
  qed
qed

text \<open>
  With such a regex and a replacer that does not look at the text before the match,
  replacing does not depend on where the scan started.
\<close>

lemma replace_all_any_pre:
  assumes "Bol \<notin> set r" and "\<And>m caps b a. f m caps b a = f m caps [] a"
  shows "replace_all r f pre s = replace_all r f [] s"
proof (induction "length s" arbitrary: s pre rule: less_induct)
  case less
  show ?case
  proof (cases s)
    case Nil
    then show ?thesis
      using rx_at_no_Bol [OF assms(1), of "length pre" "[]" 0] assms(2) [of "[]" _ pre "[]"]
      by (simp split: option.split)
  next
    case (Cons x xs)
    have at: "rx_at r (length pre) (x # xs) = rx_at r 0 (x # xs)"
      using assms(1) by (rule rx_at_no_Bol)
    have shorter: "length xs < length s" using Cons by simp
    have step: "replace_all r f (pre @ [x]) xs = replace_all r f [x] xs"
      using less [OF shorter, of "pre @ [x]"] less [OF shorter, of "[x]"] by (rule eq_via)
    have jump: "replace_all r f p (drop (n - 1) xs) = replace_all r f [] (drop (n - 1) xs)" for n p
    proof -
      have "length (drop (n - 1) xs) < length s" using Cons by simp
      then show ?thesis by (rule less)
    qed
    show ?thesis
    proof (cases "rx_at r 0 (x # xs)")
      case None
      with at step show ?thesis unfolding Cons by simp
    next
      case (Some res)
      obtain caps n where res: "res = (caps, n)" by (cases res)
      show ?thesis
      proof (cases "n = 0")
        case True
        with Some res at step assms(2) [of "[]" caps pre "x # xs"] show ?thesis
          unfolding Cons by simp
      next
        case False
        have "replace_all r f (pre @ take n (x # xs)) (drop (n - 1) xs) =
              replace_all r f (take n (x # xs)) (drop (n - 1) xs)"
          using jump [of "pre @ take n (x # xs)" n] jump [of "take n (x # xs)" n]
          by (rule eq_via)
        with False Some res at assms(2) [of "take n (x # xs)" caps pre "drop n (x # xs)"]
        show ?thesis unfolding Cons by simp
      qed
    qed
  qed
qed

text \<open>The step of \<open>replace_all\<close> at a match that covers exactly \<open>h\<close>.\<close>

lemma replace_all_hit:
  assumes "rx_at r (length pre) (h @ rest) = Some (caps, length h)" and "h \<noteq> []"
  shows "replace_all r f pre (h @ rest) = f h caps pre rest @ replace_all r f (pre @ h) rest"
proof (cases h)
  case Nil
  with assms(2) show ?thesis by simp
next
  case (Cons x h')
  with assms(1) show ?thesis by simp
qed

lemma get_substitution_plain:
  "CHR ''$'' \<notin> set tpl \<Longrightarrow> get_substitution m b a caps tpl = tpl"
  by (induction m b a caps tpl rule: get_substitution.induct) auto

lemma find_first_here:
  "pat \<noteq> [] \<Longrightarrow>
   \<forall>i < length b. take (length pat) (drop i (b @ pat @ a)) \<noteq> pat \<Longrightarrow>
   find_first pat pre (b @ pat @ a) = Some (pre @ b, a)"
proof (induction b arbitrary: pre)
  case Nil
  then show ?case by (cases pat) auto
next
  case (Cons x b)
  from Cons.prems(2) have "take (length pat) (drop 0 ((x # b) @ pat @ a)) \<noteq> pat"
    by blast
  then have here: "take (length pat) (x # b @ pat @ a) \<noteq> pat" by simp
  have "\<forall>i < length b. take (length pat) (drop i (b @ pat @ a)) \<noteq> pat"
  proof (intro allI impI)
    fix i assume "i < length b"
    then have "take (length pat) (drop (Suc i) ((x # b) @ pat @ a)) \<noteq> pat"
      using Cons.prems(2) by (metis Suc_less_eq length_Cons)
    then show "take (length pat) (drop i (b @ pat @ a)) \<noteq> pat" by simp
  qed
  with Cons.prems(1) have "find_first pat (pre @ [x]) (b @ pat @ a) = Some ((pre @ [x]) @ b, a)"
    by (rule Cons.IH)
  with here show ?case by simp
qed

section \<open>Route matching\<close>

lemma first_match_find: "first_match rs p = find (\<lambda>route. accepts route p) rs"
  by (induction rs p rule: first_match.induct) (auto simp: accepts_def)

lemma nested_match_first_some:
  "nested_match rs segments i =
     first_some (map (\<lambda>k. first_match rs (''/'' @ join ''/'' (take k segments)))
                     (rev [1 ..< Suc i]))"
proof (induction i)
  case 0
  show ?case by simp
next
  case (Suc i)
  have "rev [1 ..< Suc (Suc i)] = Suc i # rev [1 ..< Suc i]"
    by (rule rev_upt_Suc) simp
  with Suc show ?case
    by (simp split: option.split del: upt_Suc)
qed

lemma matchRoute_refines: "matchRoute rs pathname = matchRoute_spec rs pathname"
  by (simp add: matchRoute_def matchRoute_spec_def shortened_paths_def Let_def
      nested_match_first_some first_match_find comp_def split: option.split del: upt_Suc)

lemma first_match_mem: "first_match rs p = Some r \<Longrightarrow> r \<in> set rs"
  by (induction rs p rule: first_match.induct) (auto split: if_splits)

lemma nested_match_mem: "nested_match rs segments i = Some r \<Longrightarrow> r \<in> set rs"
  by (induction i) (auto split: option.splits dest: first_match_mem)

lemma matchRoute_mem: "matchRoute rs p = Some r \<Longrightarrow> r \<in> set rs"
  by (auto simp: matchRoute_def Let_def split: option.splits
      dest: first_match_mem nested_match_mem)

text \<open>
  The order of the route map is the order of registration: a new pattern goes to the
  end, after its children if it has any, and a pattern that is registered again keeps
  its place.
\<close>

lemma map_set_keys:
  "map fst (map_set k v ps) = (if k \<in> fst ` set ps then map fst ps else map fst ps @ [k])"
  by (induction ps) auto

lemma addRoute_order:
  assumes "addRoute path handler options [] s = Inr s'"
  shows "map fst (routes s') =
           (if path \<in> fst ` set (routes s) then map fst (routes s)
            else map fst (routes s) @ [path])"
  using assms by (force simp: map_set_keys log_def split: option.splits)

text \<open>
  C5. For every list of registered routes, in the order of the route map, and every
  pathname, \<open>matchRoute\<close> returns the first route that accepts the pathname; if none
  does, the pathname is shortened segment by segment, from all of its segments down to
  one, and each shortened path is tried against all routes in order. The result is
  \<open>null\<close> exactly when no route accepts the pathname or any of the shortened paths.
\<close>

theorem matchRoute_first_accepting:
  "matchRoute rs pathname = matchRoute_spec rs pathname \<and>
   (matchRoute rs pathname = None \<longleftrightarrow>
      (\<forall>candidate \<in> set (pathname # shortened_paths pathname).
         \<forall>route \<in> set rs. \<not> accepts route candidate))"
proof
  show "matchRoute rs pathname = matchRoute_spec rs pathname"
    by (rule matchRoute_refines)
  have "matchRoute_spec rs pathname = None \<longleftrightarrow>
      (\<forall>candidate \<in> set (pathname # shortened_paths pathname).
         \<forall>route \<in> set rs. \<not> accepts route candidate)"
    unfolding matchRoute_spec_def first_some_None_iff
    by (auto simp: find_None_iff)
  then show "matchRoute rs pathname = None \<longleftrightarrow>
      (\<forall>candidate \<in> set (pathname # shortened_paths pathname).
         \<forall>route \<in> set rs. \<not> accepts route candidate)"
    by (simp add: matchRoute_refines)
qed

theorem matchRoute_first_accepting_witness:
  "pathToRegex ''/a'' = Some [Bol, Ch (Only CHR ''/''), Ch (Only CHR ''a''), Eol] \<and>
   shortened_paths ''/a/b/'' = [''/a/b'', ''/a''] \<and>
   map_option fst
     (matchRoute
        [(''/a'', make_config (new_router browser ''/'' (\<lambda>url. NetworkError ''offline'')) ''/a'' (HOther Undefined)
                    no_options [] [Bol, Ch (Only CHR ''/''), Ch (Only CHR ''a''), Eol])]
        ''/a/b/'') = Some ''/a'' \<and>
   (\<exists>candidate \<in> set (''/a/b/'' # shortened_paths ''/a/b/'').
      \<exists>route \<in> set [(''/a'', make_config (new_router browser ''/'' (\<lambda>url. NetworkError ''offline''))
                                 ''/a'' (HOther Undefined) no_options []
                                 [Bol, Ch (Only CHR ''/''), Ch (Only CHR ''a''), Eol])].
        accepts route candidate)"
proof -
  let ?rs = "[(''/a'', make_config (new_router browser ''/'' (\<lambda>url. NetworkError ''offline'')) ''/a'' (HOther Undefined)
                    no_options [] [Bol, Ch (Only CHR ''/''), Ch (Only CHR ''a''), Eol])]"
  have a: "pathToRegex ''/a'' = Some [Bol, Ch (Only CHR ''/''), Ch (Only CHR ''a''), Eol]"
    by code_simp
  have b: "shortened_paths ''/a/b/'' = [''/a/b'', ''/a'']"
    by code_simp
  have c: "map_option fst (matchRoute_spec ?rs ''/a/b/'') = Some ''/a''"
    by code_simp
  have d: "matchRoute ?rs ''/a/b/'' = matchRoute_spec ?rs ''/a/b/''"
    using matchRoute_first_accepting [of ?rs "''/a/b/''"] by (rule conjunct1)
  have e: "matchRoute ?rs ''/a/b/'' \<noteq> None"
    using c d by auto
  have f: "\<exists>candidate \<in> set (''/a/b/'' # shortened_paths ''/a/b/'').
      \<exists>route \<in> set ?rs. accepts route candidate"
    using matchRoute_first_accepting [of ?rs "''/a/b/''"] e by blast
  show ?thesis
    using a b c d f by simp
qed

section \<open>Compiled matchers\<close>

text \<open>
  C6. The matcher that \<open>pathToRegex\<close> compiles for \<open>/shop/[category]/[...rest]\<close> should
  accept \<open>/shop/shoes/red/42\<close> and reject \<open>/shop/shoes\<close>. The regex that is meant to
  restore the group of a dynamic segment after the escaping pass contains the assertion
  \<open>^\<close> in its middle and never matches, so the group stays escaped: the source text of
  the compiled matcher spells the characters \<open>([^/]+)\<close> literally, and the matcher
  rejects both paths.
\<close>

theorem pathToRegex_shop_rejects_both:
  "pathToRegex_source ''/shop/[category]/[...rest]'' =
     ''^'' @ [CHR 0x5C] @ ''/shop'' @ [CHR 0x5C] @ ''/'' @
     [CHR 0x5C] @ ''('' @ [CHR 0x5C] @ ''['' @ [CHR 0x5C] @ ''^'' @ [CHR 0x5C] @ ''/'' @
     [CHR 0x5C] @ '']'' @ [CHR 0x5C] @ ''+'' @ [CHR 0x5C] @ '')'' @
     [CHR 0x5C] @ ''/(.*)$'' \<and>
   map_option (\<lambda>re. (rx_test re ''/shop/shoes/red/42'', rx_test re ''/shop/shoes''))
     (pathToRegex ''/shop/[category]/[...rest]'') = Some (False, False)"
  by code_simp

text \<open>
  Every pattern compiles all the same: after the escaping pass the only unescaped syntax
  is the group \<open>(.*)\<close> that the first restore pass puts back, and the second restore
  pass changes nothing.
\<close>

lemma rx_at_Ch:
  "rx_at (Ch c # r) pos s =
     (case s of
        [] \<Rightarrow> None
      | x # xs \<Rightarrow> if in_class c x
                  then map_option (\<lambda>(caps, n). (caps, Suc n)) (rx_at r (Suc pos) xs)
                  else None)"
  by (cases s) simp_all

lemma escape_all:
  "replace_all escapeRegex (by_template (CHR 0x5C # ''$&'')) pre s = concat (map esc_char s)"
proof (induction s arbitrary: pre)
  case Nil
  show ?case by (simp add: escapeRegex_def)
next
  case (Cons x s)
  show ?case
  proof (cases "x \<in> set syntax_chars")
    case True
    then have "rx_at escapeRegex (length pre) (x # s) = Some ([], 1)"
      by (simp add: escapeRegex_def)
    moreover have "by_template (CHR 0x5C # ''$&'') [x] [] pre s = [CHR 0x5C, x]"
      by (simp add: by_template_def)
    ultimately show ?thesis
      using True Cons [of "pre @ [x]"] by (simp add: esc_char_def)
  next
    case False
    then have "rx_at escapeRegex (length pre) (x # s) = None"
      by (simp add: escapeRegex_def)
    then show ?thesis
      using False Cons [of "pre @ [x]"] by (simp add: esc_char_def)
  qed
qed

lemma restoreDynamic_never: "rx_at restoreDynamicRegex pos s = None"
  by (simp add: restoreDynamicRegex_def rx_at_Ch split: list.split)

lemma replace_all_never:
  "(\<And>pos t. rx_at r pos t = None) \<Longrightarrow> replace_all r f pre s = s"
  by (induction s arbitrary: pre) simp_all

lemma restoreCatchAll_shape:
  "rx_at restoreCatchAllRegex pos s = Some (caps, n) \<Longrightarrow>
   caps = [] \<and> n = 8 \<and>
   (\<exists>t. s = CHR 0x5C # CHR ''('' # CHR 0x5C # CHR ''.'' # CHR 0x5C # CHR ''*'' # CHR 0x5C # CHR '')'' # t)"
  by (auto simp: restoreCatchAllRegex_def rx_at_Ch split: list.splits if_splits)


lemma esc_head:
  "concat (map esc_char q) = x # t \<Longrightarrow> x \<notin> set syntax_chars \<or> x = CHR 0x5C"
  by (cases q) (auto simp: esc_char_def split: if_splits)

lemma esc_unit:
  "concat (map esc_char q) = CHR 0x5C # d # t \<Longrightarrow>
   \<exists>q1. q = d # q1 \<and> t = concat (map esc_char q1)"
proof (cases q)
  case Nil
  assume "concat (map esc_char q) = CHR 0x5C # d # t"
  with Nil show ?thesis by simp
next
  case (Cons c q1)
  assume a: "concat (map esc_char q) = CHR 0x5C # d # t"
  have bs: "CHR 0x5C \<in> set syntax_chars" by (simp add: syntax_chars_def)
  show ?thesis
  proof (cases "c \<in> set syntax_chars")
    case True
    with a Cons show ?thesis by (simp add: esc_char_def)
  next
    case False
    with a Cons have "c = CHR 0x5C" by (simp add: esc_char_def)
    with False bs show ?thesis by simp
  qed
qed

lemma RegExp_plain:
  "c \<notin> set syntax_chars \<Longrightarrow> RegExp (c # w) = map_option ((#) (Ch (Only c))) (RegExp w)"
  by (auto simp: syntax_chars_def)

lemma RegExp_escaped:
  "c \<in> set syntax_chars \<Longrightarrow>
   RegExp (CHR 0x5C # c # w) = map_option ((#) (Ch (Only c))) (RegExp w)"
  by simp

lemma RegExp_group: "RegExp (''(.*)'' @ w) = map_option ((#) (Cap Dot 0)) (RegExp w)"
  by simp

lemma restored_parses:
  "RegExp tail \<noteq> None \<Longrightarrow>
   RegExp (replace_all restoreCatchAllRegex (by_template ''(.*)'') pre (concat (map esc_char p)) @ tail)
     \<noteq> None"
proof (induction "length p" arbitrary: p pre rule: less_induct)
  case less
  let ?R = "replace_all restoreCatchAllRegex (by_template ''(.*)'')"
  let ?E = "\<lambda>q. concat (map esc_char q)"
  show ?case
  proof (cases p)
    case Nil
    then show ?thesis using less.prems by (simp add: restoreCatchAllRegex_def)
  next
    case (Cons c p')
    have ih: "RegExp (?R pre' (?E p') @ tail) \<noteq> None" for pre'
      using less.hyps [of p' pre'] less.prems Cons by simp
    show ?thesis
    proof (cases "c \<in> set syntax_chars")
      case False
      then have "c \<noteq> CHR 0x5C" by (auto simp: syntax_chars_def)
      then have "rx_at restoreCatchAllRegex (length pre) (c # ?E p') = None"
        by (simp add: restoreCatchAllRegex_def)
      then have "?R pre (?E p) = c # ?R (pre @ [c]) (?E p')"
        using Cons False by (simp add: esc_char_def)
      then show ?thesis
        using ih [of "pre @ [c]"] False by (simp add: RegExp_plain del: RegExp.simps)
    next
      case True
      then have Ep: "?E p = CHR 0x5C # c # ?E p'"
        using Cons by (simp add: esc_char_def)
      show ?thesis
      proof (cases "rx_at restoreCatchAllRegex (length pre) (CHR 0x5C # c # ?E p')")
        case None
        have "rx_at restoreCatchAllRegex pos (c # ?E p') = None" for pos
        proof (cases "rx_at restoreCatchAllRegex pos (c # ?E p')")
          case (Some res)
          obtain caps n where "res = (caps, n)" by (cases res)
          with Some restoreCatchAll_shape [of pos "c # ?E p'" caps n]
          obtain t where "c # ?E p' = CHR 0x5C # CHR ''('' # t" by auto
          then have "?E p' = CHR ''('' # t" by simp
          from esc_head [OF this] show ?thesis by (simp add: syntax_chars_def)
        qed simp
        with None have "?R pre (?E p) = CHR 0x5C # c # ?R ((pre @ [CHR 0x5C]) @ [c]) (?E p')"
          unfolding Ep by simp
        then show ?thesis
          using ih [of "(pre @ [CHR 0x5C]) @ [c]"] True
          by (simp add: RegExp_escaped del: RegExp.simps)
      next
        case (Some res)
        obtain caps n where res: "res = (caps, n)" by (cases res)
        from Some res restoreCatchAll_shape [of "length pre" "CHR 0x5C # c # ?E p'" caps n]
        obtain t where shape: "caps = []" "n = 8"
          "CHR 0x5C # c # ?E p' =
             CHR 0x5C # CHR ''('' # CHR 0x5C # CHR ''.'' # CHR 0x5C # CHR ''*'' # CHR 0x5C # CHR '')'' # t"
          by auto
        then have c: "c = CHR ''(''" and e1: "?E p' = CHR 0x5C # CHR ''.'' # CHR 0x5C # CHR ''*'' # CHR 0x5C # CHR '')'' # t"
          by simp_all
        from esc_unit [OF e1] obtain q1 where q1: "p' = CHR ''.'' # q1"
          "CHR 0x5C # CHR ''*'' # CHR 0x5C # CHR '')'' # t = ?E q1" by auto
        from esc_unit [OF q1(2) [symmetric]] obtain q2 where q2: "q1 = CHR ''*'' # q2"
          "CHR 0x5C # CHR '')'' # t = ?E q2" by auto
        from esc_unit [OF q2(2) [symmetric]] obtain q3 where q3: "q2 = CHR '')'' # q3"
          "t = ?E q3" by auto
        have len: "length q3 < length p"
          using Cons q1 q2 q3 by simp
        have "?R pre (?E p) =
              ''(.*)'' @ ?R (pre @ take 8 (CHR 0x5C # c # ?E p')) (drop 7 (c # ?E p'))"
          unfolding Ep using Some res shape(1,2)
          by (simp add: by_template_def)
        also have "drop 7 (c # ?E p') = ?E q3"
          using e1 q3 by simp
        finally have "?R pre (?E p) = ''(.*)'' @ ?R (pre @ take 8 (CHR 0x5C # c # ?E p')) (?E q3)" .
        then show ?thesis
          using less.hyps [OF len less.prems, of "pre @ take 8 (CHR 0x5C # c # ?E p')"]
                RegExp_group [of "?R (pre @ take 8 (CHR 0x5C # c # ?E p')) (?E q3) @ tail"]
          by (simp del: RegExp.simps)
      qed
    qed
  qed
qed

lemma pathToRegex_total: "\<exists>re. pathToRegex path = Some re"
proof -
  let ?p2 = "regex_replace dynamicRouteRegex ''([^/]+)''
               (regex_replace catchAllRouteRegex ''(.*)'' path)"
  let ?p4 = "replace_all restoreCatchAllRegex (by_template ''(.*)'') [] (concat (map esc_char ?p2))"
  have src: "pathToRegex_source path = ''^'' @ ?p4 @ ''$''"
    by (simp add: pathToRegex_source_def Let_def regex_replace_def escape_all
        replace_all_never [OF restoreDynamic_never])
  have "RegExp ''$'' \<noteq> None" by simp
  then have "RegExp (?p4 @ ''$'') \<noteq> None"
    by (rule restored_parses)
  then have "RegExp (''^'' @ ?p4 @ ''$'') \<noteq> None"
    by simp
  then show ?thesis
    by (simp add: pathToRegex_def src)
qed

lemma addRoute_total:
  "(\<exists>s'. addRoute path handler options children s = Inr s')"
  "(\<exists>s'. addNestedRoutes parentPath cs s = Inr s')"
proof (induction path handler options children s and parentPath cs s
       rule: addRoute_addNestedRoutes.induct)
  case (1 path handler options children s)
  obtain re where re: "pathToRegex path = Some re"
    using pathToRegex_total by blast
  show ?case
  proof (cases "children = []")
    case True
    with re show ?thesis by simp
  next
    case False
    with 1 [OF re] obtain s' where "addNestedRoutes path children s = Inr s'" by blast
    with re False show ?thesis by simp
  qed
next
  case (2 parentPath s)
  show ?case by simp
next
  case (3 parentPath cpath chandler coptions cchildren cs s)
  from 3(1) obtain s1 where s1: "addRoute (joinPaths parentPath cpath) chandler coptions cchildren s = Inr s1"
    by blast
  from 3(2) [OF s1] obtain s2 where "addNestedRoutes parentPath cs s1 = Inr s2" by blast
  with s1 show ?case by simp
qed


section \<open>Parameters of a matched route\<close>

text \<open>
  What holds: for the pattern \<open>/blog/[...slug]\<close> the pathname \<open>/blog/a/b/c\<close> is matched and
  \<open>params.slug\<close> is \<open>a/b/c\<close>.
\<close>

lemma catch_all_blog_params:
  "(case addRoute ''/blog/[...slug]'' (HOther Undefined) no_options []
           (new_router e ''/'' (\<lambda>url. NetworkError ''offline'')) of
      Inl err \<Rightarrow> False
    | Inr s \<Rightarrow>
        map_option fst (matchRoute (routes s) ''/blog/a/b/c'') = Some ''/blog/[...slug]'' \<and>
        map (\<lambda>(path, config). extractParams ''/blog/a/b/c'' config) (routes s) =
          [[(''slug'', Str ''a/b/c'')]])"
  by code_simp

text \<open>
  C4. Matching \<open>/blog/a/b/c\<close> against a pattern with a catch-all \<open>[...slug]\<close> should give
  \<open>params.slug = a/b/c\<close>, and the extracted values should go to the placeholders they
  belong to, also when the pattern has both a dynamic and a catch-all segment. For the
  pattern \<open>/[section]/[...slug]\<close> the code does neither: the compiled matcher rejects
  \<open>/blog/a/b/c\<close> (the dynamic segment stays escaped, as in C6), so no route is matched and
  no parameter is extracted; \<open>extractKeys\<close> lists the catch-all name before the dynamic
  name although the dynamic segment comes first in the pattern; and on the one kind of
  path that the matcher does accept, which spells \<open>([^/]+)\<close> literally, \<open>params.section\<close>
  is \<open>undefined\<close>.
\<close>

theorem mixed_pattern_params_lost:
  "(case addRoute ''/[section]/[...slug]'' (HOther Undefined) no_options []
           (new_router e ''/'' (\<lambda>url. NetworkError ''offline'')) of
      Inl err \<Rightarrow> False
    | Inr s \<Rightarrow>
        matchRoute (routes s) ''/blog/a/b/c'' = None \<and>
        map (\<lambda>(path, config).
               (rc_keys config, rx_test (rc_regex config) ''/blog/a/b/c'',
                extractParams ''/blog/a/b/c'' config))
            (routes s) =
          [([\<lparr>name = ''slug'', catchAll = True\<rparr>, \<lparr>name = ''section'', catchAll = False\<rparr>],
            False, [])] \<and>
        map (\<lambda>(path, config). extractParams ''/([^/]+)/a/b/c'' config) (routes s) =
          [[(''slug'', Str ''a/b/c''), (''section'', Undefined)]])"
  by code_simp


section \<open>Template substitution\<close>

text \<open>
  The regex of \<open>processHtmlTemplate\<close> matches at a position exactly when a placeholder
  starts there, and it then matches the whole placeholder, with the key as its group: the
  greedy group takes all the characters up to the next closing brace, and no shorter
  run can be followed by a closing brace.
\<close>

lemma close_braces:
  "rx_at [Ch (Only CHR ''}''), Ch (Only CHR ''}'')] pos t =
     (if take 2 t = ''}}'' then Some ([], 2) else None)"
proof (cases t)
  case Nil
  then show ?thesis by simp
next
  case (Cons x u)
  then show ?thesis by (cases u) auto
qed

lemma run_then_close:
  "rx_at [Cap (NotCh CHR ''}'') (Suc 0), Ch (Only CHR ''}''), Ch (Only CHR ''}'')] pos t =
     (let key = takeWhile (\<lambda>c. c \<noteq> CHR ''}'') t
      in if key \<noteq> [] \<and> take 2 (drop (length key) t) = ''}}''
         then Some ([key], length key + 2) else None)"
proof -
  let ?P = "\<lambda>c. c \<noteq> CHR ''}''"
  let ?key = "takeWhile ?P t"
  let ?n = "length ?key"
  let ?r = "[Ch (Only CHR ''}''), Ch (Only CHR ''}'')]"
  let ?g = "\<lambda>k. map_option (\<lambda>(caps, n). (take k t # caps, k + n)) (rx_at ?r (pos + k) (drop k t))"
  have P: "in_class (NotCh CHR ''}'') = ?P" by (rule ext) simp
  have unfold: "rx_at [Cap (NotCh CHR ''}'') (Suc 0), Ch (Only CHR ''}''), Ch (Only CHR ''}'')] pos t =
      first_some (map ?g (rev [Suc 0 ..< Suc ?n]))"
    by (simp add: P del: upt_Suc)
  have short: "?g k = None" if "k < ?n" for k
  proof -
    have kt: "k < length t" using that length_takeWhile_le [of ?P t] by simp
    have "?key ! k \<in> set ?key" using that by simp
    then have "?P (?key ! k)" by (rule set_takeWhileD [THEN conjunct2])
    then have "t ! k \<noteq> CHR ''}''" using that by (simp add: takeWhile_nth)
    moreover have "drop k t = t ! k # drop (Suc k) t"
      using kt by (simp add: Cons_nth_drop_Suc)
    ultimately show ?thesis by simp
  qed
  show ?thesis
  proof (cases "?n = 0")
    case True
    then show ?thesis unfolding unfold by simp
  next
    case False
    then have up: "rev [Suc 0 ..< Suc ?n] = ?n # rev [Suc 0 ..< ?n]"
      by (intro rev_upt_Suc) (simp add: Suc_le_eq)
    have key: "take ?n t = ?key" by (simp add: takeWhile_eq_take [symmetric])
    show ?thesis
    proof (cases "take 2 (drop ?n t) = ''}}''")
      case True
      then have "?g ?n = Some ([?key], ?n + 2)"
        by (simp add: close_braces key)
      with False True show ?thesis unfolding unfold up by (simp add: Let_def)
    next
      case no: False
      have "first_some (map ?g (rev [Suc 0 ..< Suc ?n])) = None"
        unfolding first_some_None_iff
      proof
        fix x assume "x \<in> set (map ?g (rev [Suc 0 ..< Suc ?n]))"
        then obtain k where k: "x = ?g k" "Suc 0 \<le> k" "k \<le> ?n" by auto
        show "x = None"
        proof (cases "k = ?n")
          case True
          with k(1) no show ?thesis by (simp add: close_braces)
        next
          case False
          with k(3) have "k < ?n" by simp
          then show ?thesis unfolding k(1) by (rule short)
        qed
      qed
      with no show ?thesis unfolding unfold by (simp add: Let_def)
    qed
  qed
qed

lemma template_at:
  "rx_at templateRegex pos s =
     (case placeholder_key s of None \<Rightarrow> None | Some key \<Rightarrow> Some ([key], length key + 4))"
proof (cases s)
  case Nil
  then show ?thesis by (simp add: templateRegex_def placeholder_key_def)
next
  case (Cons c u)
  show ?thesis
  proof (cases u)
    case Nil
    with Cons show ?thesis by (simp add: templateRegex_def placeholder_key_def)
  next
    case (Cons d t)
    show ?thesis
    proof (cases "c = CHR ''{'' \<and> d = CHR ''{''")
      case False
      then show ?thesis
        unfolding \<open>s = c # u\<close> \<open>u = d # t\<close>
        by (auto simp: templateRegex_def placeholder_key_def Let_def)
    next
      case True
      have "rx_at templateRegex pos (CHR ''{'' # CHR ''{'' # t) =
            map_option (\<lambda>(caps, n). (caps, Suc (Suc n)))
              (rx_at [Cap (NotCh CHR ''}'') (Suc 0), Ch (Only CHR ''}''), Ch (Only CHR ''}'')]
                 (Suc (Suc pos)) t)"
        by (simp add: templateRegex_def option.map_comp comp_def split_def del: rx_at.simps(6))
      then show ?thesis
        unfolding \<open>s = c # u\<close> \<open>u = d # t\<close> using True
        by (simp add: run_then_close placeholder_key_def Let_def del: rx_at.simps)
    qed
  qed
qed

lemma placeholder_shape:
  assumes "placeholder_key s = Some key"
  shows "take (length key + 4) s = ''{{'' @ key @ ''}}''"
proof -
  let ?P = "\<lambda>c. c \<noteq> CHR ''}''"
  from assms have a: "take 2 s = ''{{''" "key = takeWhile ?P (drop 2 s)"
    "take 2 (drop (length key + 2) s) = ''}}''"
    by (auto simp: placeholder_key_def Let_def split: if_splits)
  have "length key + 4 = 2 + (length key + 2)" by arith
  then have "take (length key + 4) s = take (2 + (length key + 2)) s" by (rule arg_cong)
  also have "\<dots> = take 2 s @ take (length key + 2) (drop 2 s)"
    by (rule take_add)
  also have "take (length key + 2) (drop 2 s) =
             take (length key) (drop 2 s) @ take 2 (drop (length key) (drop 2 s))"
    by (rule take_add)
  also have "take (length key) (drop 2 s) = key"
    unfolding a(2) by (simp add: takeWhile_eq_take [symmetric])
  also have "drop (length key) (drop 2 s) = drop (length key + 2) s"
    by (simp add: add.commute)
  finally show ?thesis using a(1,3) by simp
qed

lemma replace_template:
  "replace_all templateRegex (template_value e ctx) pre html = expand e ctx html"
proof (induction "length html" arbitrary: html pre rule: less_induct)
  case less
  show ?case
  proof (cases html)
    case Nil
    then show ?thesis by (simp add: template_at placeholder_key_def)
  next
    case (Cons x xs)
    show ?thesis
    proof (cases "placeholder_key (x # xs)")
      case None
      have "replace_all templateRegex (template_value e ctx) (pre @ [x]) xs = expand e ctx xs"
        using Cons by (intro less) simp
      with None show ?thesis unfolding Cons by (simp add: template_at)
    next
      case (Some key)
      let ?n = "length key + 4"
      have at: "rx_at templateRegex (length pre) (x # xs) = Some ([key], ?n)"
        using Some by (simp add: template_at)
      have m: "take ?n (x # xs) = ''{{'' @ key @ ''}}''"
        using Some by (rule placeholder_shape)
      have rest: "replace_all templateRegex (template_value e ctx) (pre @ take ?n (x # xs))
                    (drop (length key + 3) xs) = expand e ctx (drop (length key + 3) xs)"
        using Cons by (intro less) simp
      have "replace_all templateRegex (template_value e ctx) pre (x # xs) =
            template_value e ctx (take ?n (x # xs)) [key] pre (drop ?n (x # xs)) @
            replace_all templateRegex (template_value e ctx) (pre @ take ?n (x # xs))
              (drop (length key + 3) xs)"
        unfolding replace_all.simps at by (simp add: add.commute)
      also have "template_value e ctx (take ?n (x # xs)) [key] pre (drop ?n (x # xs)) =
            (if walk e ctx (split_on CHR ''.'' (trim key)) \<noteq> Undefined
             then js_to_string e (walk e ctx (split_on CHR ''.'' (trim key)))
             else ''{{'' @ key @ ''}}'')"
        unfolding m by (simp add: template_value_def Let_def)
      finally show ?thesis
        unfolding Cons rest using Some by simp
    qed
  qed
qed

text \<open>
  The walk reaches every member of the context: the config of the matched route, and,
  through the engine, what a value inherits.
\<close>

lemma template_reads_route:
  "processHtmlTemplate e ''{{route.path}}'' (context_obj e ctx (Some config)) = rc_path config"
proof -
  have k: "placeholder_key ''{{route.path}}'' = Some ''route.path''" by code_simp
  have t: "split_on CHR ''.'' (trim ''route.path'') = [''route'', ''path'']" by code_simp
  have w: "walk e (context_obj e ctx (Some config)) [''route'', ''path''] = Str (rc_path config)"
    by (simp add: walk_def opt_get_def js_get_def context_obj_def route_obj_def
        split: option.split)
  show ?thesis
    unfolding processHtmlTemplate_def replace_template by (simp add: k t w)
qed

lemma template_reads_inherited:
  assumes "map_of (ctx_params ctx) ''toString'' = None"
  shows "processHtmlTemplate e ''{{params.toString}}'' (context_obj e ctx route) =
           (if inherited e (Obj (ctx_params ctx)) ''toString'' \<noteq> Undefined
            then js_to_string e (inherited e (Obj (ctx_params ctx)) ''toString'')
            else ''{{params.toString}}'')"
proof -
  have k: "placeholder_key ''{{params.toString}}'' = Some ''params.toString''" by code_simp
  have t: "split_on CHR ''.'' (trim ''params.toString'') = [''params'', ''toString'']"
    by code_simp
  have w: "walk e (context_obj e ctx route) [''params'', ''toString''] =
             inherited e (Obj (ctx_params ctx)) ''toString''"
    using assms
    by (simp add: walk_def opt_get_def js_get_def context_obj_def split: option.split)
  show ?thesis
    unfolding processHtmlTemplate_def replace_template by (simp add: k t w)
qed




section \<open>The page cache\<close>

text \<open>
  C7 as stated fails. A route caches by default, but \<open>executeRouteWithLayout\<close> stores
  content only when \<open>getRouteContent\<close> returned it and it is truthy, and \<open>handleRoute\<close>
  reaches the content only when no guard or middleware stands in the way. Four routes,
  all with the cache flag set: \<open>/e\<close> returns the empty string, \<open>/o\<close> returns a page, the
  handler of \<open>/x\<close> throws, and \<open>/g\<close> has a guard that returns \<open>false\<close>. Navigating to
  \<open>/e\<close>, \<open>/o\<close>, \<open>/e\<close>, \<open>/x\<close>, \<open>/o\<close>, \<open>/x\<close>, \<open>/g\<close>, \<open>/o\<close>, \<open>/g\<close>, \<open>/o\<close> in turn: the
  content of \<open>/e\<close> is acquired on both navigations to it, and so is that of \<open>/x\<close>; that
  of \<open>/g\<close> is never acquired. The content of \<open>/o\<close> is acquired once and stored; the
  second and third navigation to \<open>/o\<close> read the cache, so these two navigations acquire
  nothing; the fourth is skipped, because the rejected navigation to \<open>/g\<close> left \<open>/o\<close> the
  current route, and does not read the cache.
\<close>

theorem unstored_content_acquired_again:
  "(case addRoute ''/e'' (HFun (Fn ''ctx => ``'' (\<lambda>ctx. Inr (Str [])))) no_options []
           (new_router browser ''/'' (\<lambda>url. NetworkError ''offline'')) of
      Inl err \<Rightarrow> False
    | Inr r1 \<Rightarrow>
   (case addRoute ''/o'' (HFun (Fn ''ctx => `other`'' (\<lambda>ctx. Inr (Str ''other'')))) no_options [] r1 of
      Inl err \<Rightarrow> False
    | Inr r2 \<Rightarrow>
   (case addRoute ''/x'' (HFun (Fn ''ctx => { throw new Error(`down`) }''
                                  (\<lambda>ctx. Inl (Error ''down'')))) no_options [] r2 of
      Inl err \<Rightarrow> False
    | Inr r3 \<Rightarrow>
   (case addRoute ''/g'' (HFun (Fn ''ctx => `members`'' (\<lambda>ctx. Inr (Str ''members'')))) no_options [] r3 of
      Inl err \<Rightarrow> False
    | Inr r4 \<Rightarrow>
        (let s = addGuard ''/g'' (\<lambda>ctx. Inr (Bool False)) r4;
             s1 = navigate ''/e'' no_nav_options s;
             s2 = navigate ''/o'' no_nav_options s1;
             s3 = navigate ''/e'' no_nav_options s2;
             s4 = navigate ''/x'' no_nav_options s3;
             s5 = navigate ''/o'' no_nav_options s4;
             s6 = navigate ''/x'' no_nav_options s5;
             s7 = navigate ''/g'' no_nav_options s6;
             s8 = navigate ''/o'' no_nav_options s7;
             s9 = navigate ''/g'' no_nav_options s8;
             s10 = navigate ''/o'' no_nav_options s9
         in map (rc_cache \<circ> snd) (routes s) = [True, True, True, True] \<and>
            map acquisitions [s, s1, s2, s3, s4, s5, s6, s7, s8, s9, s10] =
              [0, 1, 2, 3, 4, 4, 5, 5, 5, 5, 5] \<and>
            map cache_reads [s, s1, s2, s3, s4, s5, s6, s7, s8, s9, s10] =
              [0, 0, 0, 0, 0, 1, 1, 1, 2, 2, 2] \<and>
            pageCache s10 = [(Some ''/o'', Str ''other'')] \<and>
            rendered s3 = [Str [], Str ''other'', Str []])))))"
  by code_simp

text \<open>
  What each step of a navigation does to the number of acquisitions, to the number of
  cache reads and to the page cache. Two router states \<open>agree\<close> when they have these
  three in common, and the engine, the server and the registered components, on which
  the outcome of content acquisition depends.
\<close>

lemma agree_refl: "agree s s"
  by (simp add: agree_def)

lemma agree_trans: "agree s s1 \<Longrightarrow> agree s1 s2 \<Longrightarrow> agree s s2"
  by (simp add: agree_def)

lemma agree_log:
  "msg \<noteq> ''Getting route content for config:'' \<Longrightarrow> msg \<noteq> ''Loaded from cache:'' \<Longrightarrow>
   agree s (log lvl msg s)"
  by (simp add: agree_def log_def acquisitions_def cache_reads_def)

lemma counters_log:
  "acquisitions (log lvl msg s) =
     acquisitions s + (if msg = ''Getting route content for config:'' then 1 else 0)"
  "cache_reads (log lvl msg s) = cache_reads s + (if msg = ''Loaded from cache:'' then 1 else 0)"
  "pageCache (log lvl msg s) = pageCache s"
  "engine (log lvl msg s) = engine s"
  "server (log lvl msg s) = server s"
  "routeComponents (log lvl msg s) = routeComponents s"
  by (simp_all add: acquisitions_def cache_reads_def log_def)

lemma getRouteContent_result:
  assumes "engine s' = engine s" and "server s' = server s"
    and "routeComponents s' = routeComponents s"
  shows "fst (getRouteContent config ctx s') = fst (getRouteContent config ctx s)"
  using assms
  by (simp add: getRouteContent_def fetchHtmlPage_def loadPage_def fetch_text_def
      renderComponent_def Let_def counters_log
      split: option.split handler_src.split sum.split fetch_result.split component_ref.split)

lemma getRouteContent_effect:
  assumes "getRouteContent config ctx s = (r, s')"
  shows "acquisitions s' = Suc (acquisitions s) \<and> cache_reads s' = cache_reads s \<and>
         pageCache s' = pageCache s"
  using assms
  by (auto simp: getRouteContent_def fetchHtmlPage_def loadPage_def Let_def counters_log
      split: option.splits handler_src.splits sum.splits if_splits)

lemma unlogged_layoutCache:
  "acquisitions (s\<lparr>layoutCache := c\<rparr>) = acquisitions s"
  "cache_reads (s\<lparr>layoutCache := c\<rparr>) = cache_reads s"
  by (simp_all add: acquisitions_def cache_reads_def)

lemma applyLayout_effect:
  assumes "applyLayout l content ctx s = (r, s')"
  shows "acquisitions s' = acquisitions s \<and> cache_reads s' = cache_reads s \<and>
         pageCache s' = pageCache s"
  using assms
  by (auto simp: applyLayout_def Let_def counters_log unlogged_layoutCache
      split: option.splits sum.splits)

lemma renderContent_effect:
  "acquisitions (renderContent c s) = acquisitions s \<and>
   cache_reads (renderContent c s) = cache_reads s \<and>
   pageCache (renderContent c s) = pageCache s"
  by (simp add: renderContent_def acquisitions_def cache_reads_def)

lemma handleRouteError_effect:
  "acquisitions (handleRouteError e ctx s) = acquisitions s \<and>
   cache_reads (handleRouteError e ctx s) = cache_reads s \<and>
   pageCache (handleRouteError e ctx s) = pageCache s"
  by (cases e) (simp add: handleRouteError_def renderContent_effect counters_log)

lemma after_content:
  assumes "cached_content config ctx s = (r, s1)"
  shows "acquisitions (executeRouteWithLayout config ctx s) = acquisitions s1 \<and>
         cache_reads (executeRouteWithLayout config ctx s) = cache_reads s1 \<and>
         pageCache (executeRouteWithLayout config ctx s) = pageCache s1"
proof (cases r)
  case (Inl e)
  with assms show ?thesis
    by (simp add: executeRouteWithLayout_def handleRouteError_effect counters_log)
next
  case (Inr content)
  show ?thesis
  proof (cases "truthy_layout (rc_layout config)")
    case None
    with assms Inr show ?thesis
      by (simp add: executeRouteWithLayout_def renderContent_effect)
  next
    case (Some l)
    obtain r2 s2 where al: "applyLayout l content ctx s1 = (r2, s2)"
      by (cases "applyLayout l content ctx s1")
    from applyLayout_effect [OF al] assms Inr Some al show ?thesis
      by (cases r2)
         (simp_all add: executeRouteWithLayout_def renderContent_effect handleRouteError_effect
            counters_log)
  qed
qed

lemma cached_content_miss:
  assumes "rc_cache config" and "map_of (pageCache s) (ctx_fullPath ctx) = None"
    and "getRouteContent config ctx s = (Inr content, s1)" and "truthy content"
  shows "cached_content config ctx s =
           (Inr content, s1\<lparr>pageCache := map_set (ctx_fullPath ctx) content (pageCache s1)\<rparr>)"
  using assms by (simp add: cached_content_def)

lemma cached_content_hit:
  assumes "rc_cache config" and "map_of (pageCache s) (ctx_fullPath ctx) = Some content"
  shows "cached_content config ctx s = (Inr content, log Info ''Loaded from cache:'' s)"
  using assms by (simp add: cached_content_def)

lemma execute_hit:
  assumes "rc_cache config" and "map_of (pageCache s) (ctx_fullPath ctx) = Some content"
  shows "acquisitions (executeRouteWithLayout config ctx s) = acquisitions s \<and>
         cache_reads (executeRouteWithLayout config ctx s) = cache_reads s + 1 \<and>
         pageCache (executeRouteWithLayout config ctx s) = pageCache s"
  using after_content [OF cached_content_hit [OF assms]] by (simp add: counters_log)

lemma execute_miss:
  assumes "rc_cache config" and "map_of (pageCache s) (ctx_fullPath ctx) = None"
    and "fst (getRouteContent config ctx s) = Inr content" and "truthy content"
  shows "acquisitions (executeRouteWithLayout config ctx s) = acquisitions s + 1 \<and>
         pageCache (executeRouteWithLayout config ctx s) =
           map_set (ctx_fullPath ctx) content (pageCache s)"
proof -
  obtain s1 where g: "getRouteContent config ctx s = (Inr content, s1)"
    using assms(3) by (cases "getRouteContent config ctx s") simp
  from after_content [OF cached_content_miss [OF assms(1,2) g assms(4)]]
       getRouteContent_effect [OF g]
  show ?thesis by (simp add: acquisitions_def)
qed

lemma cached_content_keeps:
  assumes "cached_content config ctx s = (r, s1)" and "map_of (pageCache s) k = Some c"
  shows "map_of (pageCache s1) k = Some c"
proof (cases "rc_cache config \<and> map_of (pageCache s) (ctx_fullPath ctx) \<noteq> None")
  case True
  with assms show ?thesis
    by (auto simp: cached_content_def counters_log)
next
  case False
  obtain r' s' where g: "getRouteContent config ctx s = (r', s')"
    by (cases "getRouteContent config ctx s")
  have pc: "pageCache s' = pageCache s"
    using getRouteContent_effect [OF g] by simp
  show ?thesis
  proof (cases "rc_cache config")
    case no: False
    with assms g pc show ?thesis
      by (cases r') (auto simp: cached_content_def)
  next
    case True
    with False have miss: "map_of (pageCache s) (ctx_fullPath ctx) = None" by simp
    with assms(2) have ne: "ctx_fullPath ctx \<noteq> k" by auto
    from assms g pc True miss ne show ?thesis
      by (cases r') (auto simp: cached_content_def map_of_map_set_other split: if_splits)
  qed
qed

lemma execute_keeps:
  assumes "map_of (pageCache s) k = Some c"
  shows "map_of (pageCache (executeRouteWithLayout config ctx s)) k = Some c"
proof -
  obtain r s1 where cc: "cached_content config ctx s = (r, s1)"
    by (cases "cached_content config ctx s")
  from after_content [OF cc] cached_content_keeps [OF cc assms] show ?thesis by simp
qed

lemma execute_uncached:
  assumes "\<not> rc_cache config"
  shows "pageCache (executeRouteWithLayout config ctx s) = pageCache s"
proof -
  obtain r s1 where g: "getRouteContent config ctx s = (r, s1)"
    by (cases "getRouteContent config ctx s")
  have "cached_content config ctx s = (r, s1)"
    using assms g by (cases r) (simp_all add: cached_content_def)
  from after_content [OF this] getRouteContent_effect [OF g] show ?thesis
    by simp
qed

lemma guard_log_unrelated:
  "filter (\<lambda>entry. snd entry = ''Getting route content for config:'') (guard_log gs ctx) = []"
  "filter (\<lambda>entry. snd entry = ''Loaded from cache:'') (guard_log gs ctx) = []"
  by (induction gs) (auto split: sum.split)

lemma parseUrl_location: "location s' = location s \<Longrightarrow> parseUrl p s' = parseUrl p s"
  by (simp add: parseUrl_def)

lemma handleRoute_unfold:
  assumes "parseUrl path s = (pathname, search)"
    and "matchRoute (routes s) pathname = Some (rpath, config)"
  shows "navigation_context path config s =
           \<lparr>ctx_path = pathname, ctx_fullPath = Some path,
            ctx_params = extractParams pathname config,
            ctx_query = parseQuery (engine s) search, ctx_route = Some (rc_path config)\<rparr>"
    and "handleRoute path s =
           (let ctx = navigation_context path config s;
                s2 = s\<lparr>routeParams := ctx_params ctx, queryParams := ctx_query ctx,
                       logger := logger s @ guard_log (guards_for s pathname) ctx\<rparr>
            in if fst (run_guards (guards_for s pathname) ctx)
               then (case run_middlewares (middlewares s @ map fn_call (rc_middleware config)) ctx of
                       Inl e \<Rightarrow> (Some e, s2)
                     | Inr b \<Rightarrow>
                         if b then (None, executeRouteWithLayout config ctx
                                            (s2\<lparr>currentRoute := Some (ctx, config)\<rparr>))
                         else (None, log Info ''Navigation blocked by middleware'' s2))
               else (None, s2))"
proof -
  show c: "navigation_context path config s =
           \<lparr>ctx_path = pathname, ctx_fullPath = Some path,
            ctx_params = extractParams pathname config,
            ctx_query = parseQuery (engine s) search, ctx_route = Some (rc_path config)\<rparr>"
    by (simp add: navigation_context_def assms(1))
  have g: "guards_for (s\<lparr>routeParams := a, queryParams := b\<rparr>) pathname = guards_for s pathname"
    for a b
    by (simp add: guards_for_def)
  show "handleRoute path s =
           (let ctx = navigation_context path config s;
                s2 = s\<lparr>routeParams := ctx_params ctx, queryParams := ctx_query ctx,
                       logger := logger s @ guard_log (guards_for s pathname) ctx\<rparr>
            in if fst (run_guards (guards_for s pathname) ctx)
               then (case run_middlewares (middlewares s @ map fn_call (rc_middleware config)) ctx of
                       Inl e \<Rightarrow> (Some e, s2)
                     | Inr b \<Rightarrow>
                         if b then (None, executeRouteWithLayout config ctx
                                            (s2\<lparr>currentRoute := Some (ctx, config)\<rparr>))
                         else (None, log Info ''Navigation blocked by middleware'' s2))
               else (None, s2))"
    unfolding c
    by (simp add: handleRoute_def assms Let_def runRouteGuards_def g
        split: sum.split bool.split)
qed

lemma handleRoute_commit:
  assumes "matchRoute (routes s) (fst (parseUrl path s)) = Some (rpath, config)"
    and "passes path config s"
  shows "\<exists>s2. handleRoute path s =
                (None, executeRouteWithLayout config (navigation_context path config s) s2) \<and>
              agree s s2"
proof -
  let ?ctx = "navigation_context path config s"
  let ?p = "fst (parseUrl path s)"
  let ?s2 = "s\<lparr>routeParams := ctx_params ?ctx, queryParams := ctx_query ?ctx,
                logger := logger s @ guard_log (guards_for s ?p) ?ctx\<rparr>"
  have pu: "parseUrl path s = (?p, snd (parseUrl path s))" by simp
  have ok: "fst (run_guards (guards_for s ?p) ?ctx)"
    and mw: "run_middlewares (middlewares s @ map fn_call (rc_middleware config)) ?ctx = Inr True"
    using assms(2) by (simp_all add: passes_def)
  have "handleRoute path s =
          (None, executeRouteWithLayout config ?ctx (?s2\<lparr>currentRoute := Some (?ctx, config)\<rparr>))"
    unfolding handleRoute_unfold(2) [OF pu assms(1)] using ok mw by (simp add: Let_def)
  moreover have "agree s (?s2\<lparr>currentRoute := Some (?ctx, config)\<rparr>)"
    by (simp add: agree_def acquisitions_def cache_reads_def guard_log_unrelated)
  ultimately show ?thesis by blast
qed

lemma handleRoute_reject:
  assumes "matchRoute (routes s) (fst (parseUrl path s)) = Some (rpath, config)"
    and "\<not> passes path config s"
  shows "agree s (snd (handleRoute path s))"
proof -
  let ?ctx = "navigation_context path config s"
  let ?p = "fst (parseUrl path s)"
  let ?s2 = "s\<lparr>routeParams := ctx_params ?ctx, queryParams := ctx_query ?ctx,
                logger := logger s @ guard_log (guards_for s ?p) ?ctx\<rparr>"
  have pu: "parseUrl path s = (?p, snd (parseUrl path s))" by simp
  have a2: "agree s ?s2"
    by (simp add: agree_def acquisitions_def cache_reads_def guard_log_unrelated)
  have a3: "agree s (log Info ''Navigation blocked by middleware'' ?s2)"
    using a2 by (rule agree_trans) (simp add: agree_log)
  show ?thesis
  proof (cases "fst (run_guards (guards_for s ?p) ?ctx)")
    case False
    then show ?thesis
      unfolding handleRoute_unfold(2) [OF pu assms(1)] using a2 by (simp add: Let_def)
  next
    case True
    with assms(2)
    have mw: "run_middlewares (middlewares s @ map fn_call (rc_middleware config)) ?ctx \<noteq> Inr True"
      by (simp add: passes_def)
    show ?thesis
    proof (cases "run_middlewares (middlewares s @ map fn_call (rc_middleware config)) ?ctx")
      case (Inl e)
      with True show ?thesis
        unfolding handleRoute_unfold(2) [OF pu assms(1)] using a2 by (simp add: Let_def)
    next
      case (Inr b)
      with mw have "\<not> b" by simp
      with True Inr show ?thesis
        unfolding handleRoute_unfold(2) [OF pu assms(1)] using a3 by (simp add: Let_def)
    qed
  qed
qed

lemma navigate_begin_Inr:
  assumes "navigate_begin path options s = Inr s1"
  shows "agree s s1 \<and> routes s1 = routes s \<and> location s1 = location s \<and>
         routeGuards s1 = routeGuards s \<and> middlewares s1 = middlewares s"
  using assms
  by (auto simp: navigate_begin_def Let_def agree_def acquisitions_def cache_reads_def log_def
      split: if_splits)

lemma navigate_begin_Inl:
  assumes "navigate_begin path options s = Inl s1"
  shows "agree s s1"
  using assms
  by (auto simp: navigate_begin_def Let_def agree_def acquisitions_def cache_reads_def log_def
      split: if_splits)

lemma renderContent_agree: "agree s (renderContent c s)"
  by (simp add: agree_def renderContent_def acquisitions_def cache_reads_def)

lemma navigate_end_agree: "agree s (navigate_end path options thrown s)"
proof (cases thrown)
  case None
  then show ?thesis
    by (cases "transitionQueue s")
       (simp_all add: navigate_end_def Let_def agree_def acquisitions_def cache_reads_def)
next
  case (Some e)
  obtain message where e: "e = Error message" by (cases e)
  have "agree s (s\<lparr>loading := False, isTransitioning := False\<rparr>)"
    by (simp add: agree_def acquisitions_def cache_reads_def)
  then have "agree s (log Err ''Navigation error:''
               (log Err ''Navigation failed'' (s\<lparr>loading := False, isTransitioning := False\<rparr>)))"
    by (intro agree_trans [OF _ agree_log] agree_trans [OF _ agree_log]) simp_all
  then show ?thesis
    unfolding Some e
    by (simp add: navigate_end_def handleNavigationError_def)
       (rule agree_trans [OF _ renderContent_agree])
qed

lemma same_setup:
  assumes "routes s1 = routes s" and "location s1 = location s" and "engine s1 = engine s"
    and "routeGuards s1 = routeGuards s" and "middlewares s1 = middlewares s"
  shows "parseUrl path s1 = parseUrl path s"
    and "navigation_context path config s1 = navigation_context path config s"
    and "passes path config s1 = passes path config s"
    and "resolved path s1 = resolved path s"
  using assms
  by (simp_all add: parseUrl_def navigation_context_def passes_def resolved_def guards_for_def)

lemma navigate_commit:
  assumes "commits path options s" and "resolved path s = Some config"
  shows "\<exists>s2. navigate path options s =
                navigate_end path options None
                  (executeRouteWithLayout config (navigation_context path config s) s2) \<and>
              agree s s2"
proof -
  from assms(1) obtain s1 where b: "navigate_begin path options s = Inr s1"
    by (auto simp: commits_def carried_out_def split: sum.splits)
  from assms have p: "passes path config s"
    by (simp add: commits_def)
  note s1 = navigate_begin_Inr [OF b]
  have e: "engine s1 = engine s" using s1 by (simp add: agree_def)
  note same = same_setup [of s1 s, OF s1 [THEN conjunct2, THEN conjunct1]
      s1 [THEN conjunct2, THEN conjunct2, THEN conjunct1] e
      s1 [THEN conjunct2, THEN conjunct2, THEN conjunct2, THEN conjunct1]
      s1 [THEN conjunct2, THEN conjunct2, THEN conjunct2, THEN conjunct2]]
  from assms(2) obtain rpath where
    m: "matchRoute (routes s1) (fst (parseUrl path s1)) = Some (rpath, config)"
    unfolding same(4) [of path, symmetric] by (auto simp: resolved_def)
  have p1: "passes path config s1" using p by (simp add: same(3))
  from handleRoute_commit [OF m p1] obtain s2 where
    h: "handleRoute path s1 =
          (None, executeRouteWithLayout config (navigation_context path config s1) s2)"
    and a: "agree s1 s2" by blast
  have "handleRouteWithTransition path s1 = handleRoute path s1"
    using m by (simp add: handleRouteWithTransition_def split_def)
  with b h have "navigate path options s =
      navigate_end path options None
        (executeRouteWithLayout config (navigation_context path config s) s2)"
    by (simp add: navigate_def same(2))
  moreover have "agree s s2"
    using s1 [THEN conjunct1] a by (rule agree_trans)
  ultimately show ?thesis by blast
qed

lemma navigate_reject:
  assumes "resolved path s = Some config" and "\<not> commits path options s"
  shows "agree s (navigate path options s)"
proof (cases "navigate_begin path options s")
  case (Inl s')
  then show ?thesis
    using navigate_begin_Inl [OF Inl] by (simp add: navigate_def)
next
  case (Inr s1)
  note s1 = navigate_begin_Inr [OF Inr]
  have e: "engine s1 = engine s" using s1 by (simp add: agree_def)
  note same = same_setup [of s1 s, OF s1 [THEN conjunct2, THEN conjunct1]
      s1 [THEN conjunct2, THEN conjunct2, THEN conjunct1] e
      s1 [THEN conjunct2, THEN conjunct2, THEN conjunct2, THEN conjunct1]
      s1 [THEN conjunct2, THEN conjunct2, THEN conjunct2, THEN conjunct2]]
  from assms(1) obtain rpath where
    m: "matchRoute (routes s1) (fst (parseUrl path s1)) = Some (rpath, config)"
    unfolding same(4) [of path, symmetric] by (auto simp: resolved_def)
  have "\<not> passes path config s"
    using assms Inr by (simp add: commits_def carried_out_def)
  then have "\<not> passes path config s1" by (simp add: same(3))
  from handleRoute_reject [OF m this] have a: "agree s1 (snd (handleRoute path s1))" .
  have "handleRouteWithTransition path s1 = handleRoute path s1"
    using m by (simp add: handleRouteWithTransition_def split_def)
  with Inr have "navigate path options s =
      navigate_end path options (fst (handleRoute path s1)) (snd (handleRoute path s1))"
    by (simp add: navigate_def split_def)
  then show ?thesis
    using s1 [THEN conjunct1] a navigate_end_agree by (metis agree_trans)
qed

lemma handle404_keeps:
  assumes "map_of (pageCache s) k = Some c"
  shows "map_of (pageCache (handle404 p s)) k = Some c"
proof -
  have "map_of (pageCache (log Warn ''Route not found:'' s)) k = Some c"
    using assms by (simp add: counters_log)
  then show ?thesis
    by (simp add: handle404_def Let_def execute_keeps renderContent_effect counters_log
        split: option.split)
qed

lemma navigate_keeps:
  assumes "map_of (pageCache s) k = Some c"
  shows "map_of (pageCache (navigate path options s)) k = Some c"
proof (cases "resolved path s")
  case (Some config)
  show ?thesis
  proof (cases "commits path options s")
    case True
    from navigate_commit [OF True Some] obtain s2 where
      n: "navigate path options s =
            navigate_end path options None
              (executeRouteWithLayout config (navigation_context path config s) s2)"
      and a: "agree s s2" by blast
    have "map_of (pageCache s2) k = Some c" using assms a by (simp add: agree_def)
    then have "map_of (pageCache (executeRouteWithLayout config
                 (navigation_context path config s) s2)) k = Some c"
      by (rule execute_keeps)
    then show ?thesis
      unfolding n using navigate_end_agree [of _ path options None] by (simp add: agree_def)
  next
    case False
    from navigate_reject [OF Some False] assms show ?thesis by (simp add: agree_def)
  qed
next
  case None
  show ?thesis
  proof (cases "navigate_begin path options s")
    case (Inl s')
    then show ?thesis
      using navigate_begin_Inl [OF Inl] assms by (simp add: navigate_def agree_def)
  next
    case (Inr s1)
    note s1 = navigate_begin_Inr [OF Inr]
    have m: "matchRoute (routes s1) (fst (parseUrl path s1)) = None"
      using None s1 parseUrl_location [of s1 s path] by (simp add: resolved_def)
    have k1: "map_of (pageCache s1) k = Some c" using assms s1 by (simp add: agree_def)
    have "navigate path options s =
            navigate_end path options None (handle404 (fst (parseUrl path s1)) s1)"
      using Inr m by (simp add: navigate_def handleRouteWithTransition_def split_def)
    then show ?thesis
      using handle404_keeps [OF k1] navigate_end_agree [of _ path options None]
      by (simp add: agree_def)
  qed
qed

lemma navigations_keeps:
  "map_of (pageCache s) k = Some c \<Longrightarrow> map_of (pageCache (navigations navs s)) k = Some c"
proof (induction navs arbitrary: s)
  case Nil
  then show ?case by (simp add: navigations_def)
next
  case (Cons nav navs)
  from Cons.prems have "map_of (pageCache (navigate (fst nav) (snd nav) s)) k = Some c"
    by (rule navigate_keeps)
  from Cons.IH [OF this] show ?case by (simp add: navigations_def)
qed

lemma navigate_first:
  assumes "commits path options s" and "resolved path s = Some config" and "rc_cache config"
    and "map_of (pageCache s) (Some path) = None"
    and "acquired path config s = Inr content" and "truthy content"
  shows "acquisitions (navigate path options s) = acquisitions s + 1 \<and>
         pageCache (navigate path options s) = map_set (Some path) content (pageCache s)"
proof -
  let ?ctx = "navigation_context path config s"
  from navigate_commit [OF assms(1,2)] obtain s2 where
    n: "navigate path options s =
          navigate_end path options None (executeRouteWithLayout config ?ctx s2)"
    and a: "agree s s2" by blast
  have key: "ctx_fullPath ?ctx = Some path" by (simp add: navigation_context_def)
  have miss: "map_of (pageCache s2) (ctx_fullPath ?ctx) = None"
    using assms(4) a by (simp add: key agree_def)
  have "fst (getRouteContent config ?ctx s2) = fst (getRouteContent config ?ctx s)"
    using a by (intro getRouteContent_result) (simp_all add: agree_def)
  then have got: "fst (getRouteContent config ?ctx s2) = Inr content"
    using assms(5) by (simp add: acquired_def)
  from execute_miss [OF assms(3) miss got assms(6)] a
  show ?thesis
    unfolding n using navigate_end_agree [of "executeRouteWithLayout config ?ctx s2" path options None]
    by (simp add: agree_def key)
qed

lemma navigate_second:
  assumes "resolved path s = Some config" and "rc_cache config"
    and "map_of (pageCache s) (Some path) = Some content"
  shows "acquisitions (navigate path options s) = acquisitions s \<and>
         pageCache (navigate path options s) = pageCache s \<and>
         cache_reads (navigate path options s) =
           cache_reads s + (if commits path options s then 1 else 0)"
proof (cases "commits path options s")
  case True
  let ?ctx = "navigation_context path config s"
  from navigate_commit [OF True assms(1)] obtain s2 where
    n: "navigate path options s =
          navigate_end path options None (executeRouteWithLayout config ?ctx s2)"
    and a: "agree s s2" by blast
  have key: "ctx_fullPath ?ctx = Some path" by (simp add: navigation_context_def)
  have hit: "map_of (pageCache s2) (ctx_fullPath ?ctx) = Some content"
    using assms(3) a by (simp add: key agree_def)
  from execute_hit [OF assms(2) hit] a True
  show ?thesis
    unfolding n using navigate_end_agree [of "executeRouteWithLayout config ?ctx s2" path options None]
    by (simp add: agree_def)
next
  case False
  from navigate_reject [OF assms(1) False] False show ?thesis by (simp add: agree_def)
qed

lemma navigate_uncached:
  assumes "resolved path s = Some config" and "\<not> rc_cache config"
  shows "pageCache (navigate path options s) = pageCache s"
proof (cases "commits path options s")
  case True
  let ?ctx = "navigation_context path config s"
  from navigate_commit [OF True assms(1)] obtain s2 where
    n: "navigate path options s =
          navigate_end path options None (executeRouteWithLayout config ?ctx s2)"
    and a: "agree s s2" by blast
  from execute_uncached [OF assms(2), of ?ctx s2] a
  show ?thesis
    unfolding n using navigate_end_agree [of "executeRouteWithLayout config ?ctx s2" path options None]
    by (simp add: agree_def)
next
  case False
  from navigate_reject [OF assms(1) False] show ?thesis by (simp add: agree_def)
qed

text \<open>
  No navigation changes the route map, so a navigation to a non-empty path is resolved in
  the same way before and after any navigations.
\<close>

lemma routes_log: "routes (log lvl msg s) = routes s"
  by (simp add: log_def)

lemma getRouteContent_routes: "routes (snd (getRouteContent config ctx s)) = routes s"
  by (simp add: getRouteContent_def fetchHtmlPage_def loadPage_def Let_def routes_log
      split: option.split handler_src.split sum.split)

lemma applyLayout_routes: "routes (snd (applyLayout l content ctx s)) = routes s"
  by (simp add: applyLayout_def Let_def routes_log split: option.split sum.split)

lemma renderContent_routes: "routes (renderContent c s) = routes s"
  by (simp add: renderContent_def)

lemma handleRouteError_routes: "routes (handleRouteError err ctx s) = routes s"
  by (cases err) (simp add: handleRouteError_def renderContent_routes routes_log)

lemma cached_content_routes: "routes (snd (cached_content config ctx s)) = routes s"
proof -
  obtain r s1 where g: "getRouteContent config ctx s = (r, s1)"
    by (cases "getRouteContent config ctx s")
  then have "routes s1 = routes s"
    using getRouteContent_routes [of config ctx s] by simp
  with g show ?thesis
    by (cases r) (simp_all add: cached_content_def Let_def routes_log split: option.split)
qed

lemma execute_routes: "routes (executeRouteWithLayout config ctx s) = routes s"
proof -
  obtain r s1 where cc: "cached_content config ctx s = (r, s1)"
    by (cases "cached_content config ctx s")
  then have s1: "routes s1 = routes s"
    using cached_content_routes [of config ctx s] by simp
  show ?thesis
  proof (cases r)
    case (Inl err)
    with cc s1 show ?thesis
      by (simp add: executeRouteWithLayout_def handleRouteError_routes routes_log)
  next
    case (Inr content)
    show ?thesis
    proof (cases "truthy_layout (rc_layout config)")
      case None
      with cc s1 Inr show ?thesis
        by (simp add: executeRouteWithLayout_def renderContent_routes)
    next
      case (Some l)
      obtain r2 s2 where al: "applyLayout l content ctx s1 = (r2, s2)"
        by (cases "applyLayout l content ctx s1")
      then have "routes s2 = routes s1"
        using applyLayout_routes [of l content ctx s1] by simp
      with cc s1 Inr Some al show ?thesis
        by (cases r2)
           (simp_all add: executeRouteWithLayout_def renderContent_routes handleRouteError_routes
              routes_log)
    qed
  qed
qed

lemma handle404_routes: "routes (handle404 p s) = routes s"
  by (simp add: handle404_def Let_def execute_routes renderContent_routes routes_log
      split: option.split)

lemma handleRoute_routes: "routes (snd (handleRoute path s)) = routes s"
proof (cases "matchRoute (routes s) (fst (parseUrl path s))")
  case None
  then show ?thesis
    by (simp add: handleRoute_def split_def handle404_routes)
next
  case (Some route)
  obtain rpath config where route: "route = (rpath, config)" by (cases route)
  have pu: "parseUrl path s = (fst (parseUrl path s), snd (parseUrl path s))" by simp
  show ?thesis
    unfolding handleRoute_unfold(2) [OF pu Some [unfolded route]]
    by (simp add: Let_def execute_routes routes_log split: sum.split)
qed

lemma navigate_end_routes: "routes (navigate_end path options thrown s) = routes s"
proof (cases thrown)
  case None
  then show ?thesis
    by (cases "transitionQueue s") (simp_all add: navigate_end_def Let_def)
next
  case (Some err)
  then show ?thesis
    by (cases err)
       (simp add: navigate_end_def handleNavigationError_def renderContent_routes routes_log)
qed

lemma navigate_routes: "routes (navigate path options s) = routes s"
proof (cases "navigate_begin path options s")
  case (Inl s')
  then show ?thesis
    by (auto simp: navigate_def navigate_begin_def Let_def log_def split: if_splits)
next
  case (Inr s1)
  have s1: "routes s1 = routes s"
    using navigate_begin_Inr [OF Inr] by simp
  have "routes (snd (handleRouteWithTransition path s1)) = routes s1"
    by (simp add: handleRouteWithTransition_def split_def handle404_routes handleRoute_routes
        split: option.split)
  with Inr s1 show ?thesis
    by (simp add: navigate_def split_def navigate_end_routes)
qed

lemma navigations_routes: "routes (navigations navs s) = routes s"
proof (induction navs arbitrary: s)
  case Nil
  show ?case by (simp add: navigations_def)
next
  case (Cons nav navs)
  have "routes (navigations navs (navigate (fst nav) (snd nav) s)) =
        routes (navigate (fst nav) (snd nav) s)"
    by (rule Cons.IH)
  then show ?case by (simp add: navigations_def navigate_routes)
qed

lemma resolved_again:
  assumes "path \<noteq> []"
  shows "resolved path (navigations navs (navigate path options s)) = resolved path s"
  using assms by (simp add: resolved_def parseUrl_def navigations_routes navigate_routes)

text \<open>
  C7, amended. For every route whose cache flag is set, navigating twice to the same
  full path performs content acquisition exactly once, provided that the first
  navigation commits, that the page cache holds no entry for the full path before it,
  that its content acquisition returns truthy content, and that the second navigation
  is resolved to a route whose cache flag is set, whatever navigations are made in
  between. The first navigation acquires once and stores the content, as acquired and
  before any layout, in the page cache under the full path; the second navigation
  acquires nothing and leaves the page cache as it is; and when it commits, it reads the
  cache. (When the path is not empty, the second navigation is resolved as the first
  was, by \<open>resolved_again\<close>.)
\<close>

theorem cached_route_acquired_once:
  assumes "commits path options s" and "resolved path s = Some config" and "rc_cache config"
    and "map_of (pageCache s) (Some path) = None"
    and "acquired path config s = Inr content" and "truthy content"
    and "resolved path (navigations navs (navigate path options s)) = Some config'"
    and "rc_cache config'"
  shows "(let s1 = navigate path options s;
              s' = navigations navs s1;
              s2 = navigate path options' s'
          in acquisitions s1 = acquisitions s + 1 \<and>
             map_of (pageCache s1) (Some path) = Some content \<and>
             acquisitions s2 = acquisitions s' \<and>
             pageCache s2 = pageCache s' \<and>
             map_of (pageCache s2) (Some path) = Some content \<and>
             (commits path options' s' \<longrightarrow> cache_reads s2 = cache_reads s' + 1))"
proof -
  let ?s1 = "navigate path options s"
  let ?s' = "navigations navs ?s1"
  have first: "acquisitions ?s1 = acquisitions s + 1 \<and>
               pageCache ?s1 = map_set (Some path) content (pageCache s)"
    using assms(1-6) by (rule navigate_first)
  then have stored: "map_of (pageCache ?s1) (Some path) = Some content"
    by (simp add: map_of_map_set)
  then have later: "map_of (pageCache ?s') (Some path) = Some content"
    by (rule navigations_keeps)
  from navigate_second [OF assms(7,8) later, of options'] first stored later
  show ?thesis by (simp add: Let_def)
qed

theorem cached_route_acquired_once_witness:
  "(let s = projr (addRoute ''/o'' (HFun (Fn ''ctx => `other`'' (\<lambda>ctx. Inr (Str ''other''))))
                     no_options []
               (projr (addRoute ''/e'' (HFun (Fn ''ctx => `page`'' (\<lambda>ctx. Inr (Str ''page''))))
                         no_options []
                         (new_router browser ''/'' (\<lambda>url. NetworkError ''offline'')))));
        s1 = navigate ''/e?x=1'' no_nav_options s;
        s' = navigations [(''/o'', no_nav_options)] s1;
        s2 = navigate ''/e?x=1'' no_nav_options s'
    in commits ''/e?x=1'' no_nav_options s \<and>
       map_option rc_cache (resolved ''/e?x=1'' s) = Some True \<and>
       map_of (pageCache s) (Some ''/e?x=1'') = None \<and>
       map_option (\<lambda>config. acquired ''/e?x=1'' config s) (resolved ''/e?x=1'' s) =
         Some (Inr (Str ''page'')) \<and>
       truthy (Str ''page'') \<and>
       map_option rc_cache (resolved ''/e?x=1'' s') = Some True \<and>
       commits ''/e?x=1'' no_nav_options s' \<and>
       acquisitions s1 = 1 \<and> acquisitions s' = 2 \<and> acquisitions s2 = 2 \<and>
       cache_reads s' = 0 \<and> cache_reads s2 = 1 \<and>
       pageCache s1 = [(Some ''/e?x=1'', Str ''page'')] \<and>
       map_of (pageCache s2) (Some ''/e?x=1'') = Some (Str ''page''))"
proof -
  let ?s = "projr (addRoute ''/o'' (HFun (Fn ''ctx => `other`'' (\<lambda>ctx. Inr (Str ''other''))))
                     no_options []
               (projr (addRoute ''/e'' (HFun (Fn ''ctx => `page`'' (\<lambda>ctx. Inr (Str ''page''))))
                         no_options []
                         (new_router browser ''/'' (\<lambda>url. NetworkError ''offline'')))))"
  let ?p = "''/e?x=1''"
  let ?s1 = "navigate ?p no_nav_options ?s"
  let ?s' = "navigations [(''/o'', no_nav_options)] ?s1"
  let ?s2 = "navigate ?p no_nav_options ?s'"
  have h1: "commits ?p no_nav_options ?s" by code_simp
  have r: "map_option rc_cache (resolved ?p ?s) = Some True" by code_simp
  then obtain config where h2: "resolved ?p ?s = Some config" and h3: "rc_cache config"
    by auto
  have h4: "map_of (pageCache ?s) (Some ?p) = None" by code_simp
  have a: "map_option (\<lambda>config. acquired ?p config ?s) (resolved ?p ?s) =
             Some (Inr (Str ''page''))" by code_simp
  then have h5: "acquired ?p config ?s = Inr (Str ''page'')" using h2 by simp
  have h6: "truthy (Str ''page'')" by simp
  have r': "map_option rc_cache (resolved ?p ?s') = Some True" by code_simp
  then obtain config' where h7: "resolved ?p ?s' = Some config'" and h8: "rc_cache config'"
    by auto
  have c: "commits ?p no_nav_options ?s'" by code_simp
  have n: "acquisitions ?s = 0" "acquisitions ?s' = 2" "cache_reads ?s' = 0"
    "pageCache ?s1 = [(Some ?p, Str ''page'')]"
    by code_simp+
  note m = cached_route_acquired_once [OF h1 h2 h3 h4 h5 h6 h7 h8, of no_nav_options,
      unfolded Let_def]
  have c1: "acquisitions ?s1 = 1"
    using m [THEN conjunct1] n(1) by (rule one_more)
  have c2: "acquisitions ?s2 = 2"
    using m [THEN conjunct2, THEN conjunct2, THEN conjunct1] n(2) by (rule trans)
  have c3: "cache_reads ?s2 = 1"
    using m [THEN conjunct2, THEN conjunct2, THEN conjunct2, THEN conjunct2, THEN conjunct2,
             THEN mp, OF c] n(3)
    by (rule one_more)
  note c4 = m [THEN conjunct2, THEN conjunct2, THEN conjunct2, THEN conjunct2, THEN conjunct1]
  show ?thesis
    by (simp only: Let_def h1 r h4 a h6 r' c c1 c2 c3 c4 n simp_thms)
qed

text \<open>
  C9 as stated fails: a route that caches does not have all that it renders cached by
  full path. With \<open>cache: true\<close> and a handler that returns the empty string, the empty
  page is rendered and nothing is stored; when the handler throws, the error page is
  rendered and nothing is stored; and with a layout, the page cache holds the content as
  acquired, not the page that is rendered.
\<close>

theorem falsy_or_failed_content_not_cached:
  "(case addRoute ''/n'' (HFun (Fn ''ctx => ``'' (\<lambda>ctx. Inr (Str []))))
           (no_options\<lparr>opt_cache := Bool True\<rparr>) []
           (new_router browser ''/'' (\<lambda>url. NetworkError ''offline'')) of
      Inl err \<Rightarrow> False
    | Inr r1 \<Rightarrow>
   (case addRoute ''/x'' (HFun (Fn ''ctx => { throw new Error(`down`) }''
                                  (\<lambda>ctx. Inl (Error ''down'')))) no_options [] r1 of
      Inl err \<Rightarrow> False
    | Inr r2 \<Rightarrow>
   (case addRoute ''/l'' (HFun (Fn ''ctx => `page`'' (\<lambda>ctx. Inr (Str ''page''))))
           (no_options\<lparr>opt_layout :=
              Some (LFun (Fn ''ctx => `<main>{{content}}</main>`''
                            (\<lambda>ctx. Inr (Str ''<main>{{content}}</main>''))))\<rparr>) [] r2 of
      Inl err \<Rightarrow> False
    | Inr s \<Rightarrow>
        (let s1 = navigate ''/n'' no_nav_options s;
             s2 = navigate ''/x'' no_nav_options s1;
             s3 = navigate ''/l'' no_nav_options s2
         in map (rc_cache \<circ> snd) (routes s) = [True, True, True] \<and>
            commits ''/n'' no_nav_options s \<and> rendered s1 = [Str []] \<and> pageCache s1 = [] \<and>
            commits ''/x'' no_nav_options s1 \<and>
            rendered s2 = [Str [], Str ''<h1>Route Error</h1><p>Failed to load /x</p><p>down</p>''] \<and>
            pageCache s2 = [] \<and>
            commits ''/l'' no_nav_options s2 \<and>
            last (rendered s3) = Str ''<main>page</main>'' \<and>
            pageCache s3 = [(Some ''/l'', Str ''page'')]))))"
  by code_simp

text \<open>
  C9, amended. Caching is opt-out. For every call of \<open>addRoute\<close>, the call succeeds and
  stores under the pattern a config whose cache flag is set exactly when \<open>options.cache\<close>
  is not the value \<open>false\<close>: omitted (\<open>undefined\<close>) or any other value sets it. With the
  flag set, after every navigation that is resolved to the route, commits, and whose
  content acquisition returns truthy content, the page cache holds an entry for the full
  path: the entry it held before, or else that content. With \<open>options.cache\<close> equal to
  \<open>false\<close>, no navigation that is resolved to the route changes the page cache.
\<close>

theorem addRoute_cache_opt_out:
  "\<exists>s' re. pathToRegex path = Some re \<and>
      addRoute path handler options children s = Inr s' \<and>
      (let config = make_config s path handler options children re
       in map_of (routes s') path = Some config \<and>
          rc_cache config = (opt_cache options \<noteq> Bool False) \<and>
          (\<forall>r fullPath nav content.
             opt_cache options \<noteq> Bool False \<and>
             resolved fullPath r = Some config \<and> commits fullPath nav r \<and>
             acquired fullPath config r = Inr content \<and> truthy content \<longrightarrow>
             map_of (pageCache (navigate fullPath nav r)) (Some fullPath) =
               Some (case map_of (pageCache r) (Some fullPath) of
                       None \<Rightarrow> content
                     | Some earlier \<Rightarrow> earlier)) \<and>
          (\<forall>r fullPath nav.
             opt_cache options = Bool False \<and> resolved fullPath r = Some config \<longrightarrow>
             pageCache (navigate fullPath nav r) = pageCache r))"
proof -
  obtain re where re: "pathToRegex path = Some re"
    using pathToRegex_total by blast
  obtain s' where s': "addRoute path handler options children s = Inr s'"
    using addRoute_total(1) by blast
  let ?config = "make_config s path handler options children re"
  have stored: "map_of (routes s') path = Some ?config"
    using s' re by (auto simp: map_of_map_set routes_log split: sum.splits if_splits)
  have flag: "rc_cache ?config = (opt_cache options \<noteq> Bool False)"
    by (simp add: make_config_def)
  have on: "map_of (pageCache (navigate fullPath nav r)) (Some fullPath) =
               Some (case map_of (pageCache r) (Some fullPath) of
                       None \<Rightarrow> content
                     | Some earlier \<Rightarrow> earlier)"
    if "opt_cache options \<noteq> Bool False" "resolved fullPath r = Some ?config"
       "commits fullPath nav r" "acquired fullPath ?config r = Inr content" "truthy content"
    for r fullPath nav content
  proof (cases "map_of (pageCache r) (Some fullPath)")
    case None
    have "rc_cache ?config" using that(1) flag by simp
    from navigate_first [OF that(3,2) this None that(4,5)] None show ?thesis
      by (simp add: map_of_map_set)
  next
    case (Some earlier)
    have "rc_cache ?config" using that(1) flag by simp
    from navigate_second [OF that(2) this Some, of nav] Some show ?thesis
      by simp
  qed
  have off: "pageCache (navigate fullPath nav r) = pageCache r"
    if "opt_cache options = Bool False" "resolved fullPath r = Some ?config" for r fullPath nav
    using that(2) by (rule navigate_uncached) (simp add: flag that(1))
  have body:
    "map_of (routes s') path = Some ?config \<and>
     rc_cache ?config = (opt_cache options \<noteq> Bool False) \<and>
     (\<forall>r fullPath nav content.
        opt_cache options \<noteq> Bool False \<and>
        resolved fullPath r = Some ?config \<and> commits fullPath nav r \<and>
        acquired fullPath ?config r = Inr content \<and> truthy content \<longrightarrow>
        map_of (pageCache (navigate fullPath nav r)) (Some fullPath) =
          Some (case map_of (pageCache r) (Some fullPath) of
                  None \<Rightarrow> content
                | Some earlier \<Rightarrow> earlier)) \<and>
     (\<forall>r fullPath nav.
        opt_cache options = Bool False \<and> resolved fullPath r = Some ?config \<longrightarrow>
        pageCache (navigate fullPath nav r) = pageCache r)"
    using stored flag on off by blast
  show ?thesis
    unfolding Let_def using re s' body by blast
qed

theorem addRoute_cache_opt_out_witness:
  "\<exists>s'. addRoute ''/a'' (HFun (Fn ''ctx => `page`'' (\<lambda>ctx. Inr (Str ''page''))))
          (no_options\<lparr>opt_cache := Num 0\<rparr>) []
          (new_router browser ''/'' (\<lambda>url. NetworkError ''offline'')) = Inr s' \<and>
        map_option rc_cache (map_of (routes s') ''/a'') = Some True \<and>
        map_option rc_cache (resolved ''/a?tab=1'' s') = Some True \<and>
        commits ''/a?tab=1'' no_nav_options s' \<and>
        map_option (\<lambda>config. acquired ''/a?tab=1'' config s') (resolved ''/a?tab=1'' s') =
          Some (Inr (Str ''page'')) \<and>
        truthy (Str ''page'') \<and>
        map_of (pageCache (navigate ''/a?tab=1'' no_nav_options s')) (Some ''/a?tab=1'') =
          Some (Str ''page'')"
proof -
  let ?s = "new_router browser ''/'' (\<lambda>url. NetworkError ''offline'')"
  let ?h = "HFun (Fn ''ctx => `page`'' (\<lambda>ctx. Inr (Str ''page'')))"
  let ?o = "no_options\<lparr>opt_cache := Num 0\<rparr>"
  let ?p = "''/a?tab=1''"
  from addRoute_cache_opt_out [of "''/a''" ?h ?o "[]" ?s]
  obtain s' re where re: "pathToRegex ''/a'' = Some re"
    and s': "addRoute ''/a'' ?h ?o [] ?s = Inr s'"
    and stored: "map_of (routes s') ''/a'' = Some (make_config ?s ''/a'' ?h ?o [] re)"
    and flag: "rc_cache (make_config ?s ''/a'' ?h ?o [] re) = (opt_cache ?o \<noteq> Bool False)"
    and on: "\<And>r fullPath nav content.
             opt_cache ?o \<noteq> Bool False \<and>
             resolved fullPath r = Some (make_config ?s ''/a'' ?h ?o [] re) \<and>
             commits fullPath nav r \<and>
             acquired fullPath (make_config ?s ''/a'' ?h ?o [] re) r = Inr content \<and>
             truthy content \<Longrightarrow>
             map_of (pageCache (navigate fullPath nav r)) (Some fullPath) =
               Some (case map_of (pageCache r) (Some fullPath) of
                       None \<Rightarrow> content
                     | Some earlier \<Rightarrow> earlier)"
    by (auto simp: Let_def)
  let ?config = "make_config ?s ''/a'' ?h ?o [] re"
  have st: "s' = projr (addRoute ''/a'' ?h ?o [] ?s)" using s' by simp
  have h1: "opt_cache ?o \<noteq> Bool False" by simp
  have rs: "routes s' = [(''/a'', ?config)]"
    using s' re by (auto simp: new_router_def log_def)
  have m: "map_option fst (matchRoute (routes s') (fst (parseUrl ?p s'))) = Some ''/a''"
    unfolding st by code_simp
  from m obtain route where
    route: "matchRoute (routes s') (fst (parseUrl ?p s')) = Some route"
    by auto
  from matchRoute_mem [OF route] have "route = (''/a'', ?config)"
    unfolding rs by simp
  with route have h2: "resolved ?p s' = Some ?config"
    by (simp add: resolved_def)
  have h3: "commits ?p no_nav_options s'" unfolding st by code_simp
  have a: "map_option (\<lambda>config. acquired ?p config s') (resolved ?p s') = Some (Inr (Str ''page''))"
    unfolding st by code_simp
  then have h4: "acquired ?p ?config s' = Inr (Str ''page'')" unfolding h2 by simp
  have h5: "truthy (Str ''page'')" by simp
  have miss: "map_of (pageCache s') (Some ?p) = None" unfolding st by code_simp
  have "map_of (pageCache (navigate ?p no_nav_options s')) (Some ?p) =
          Some (case map_of (pageCache s') (Some ?p) of None \<Rightarrow> Str ''page'' | Some earlier \<Rightarrow> earlier)"
    using h1 h2 h3 h4 h5 by (intro on) simp
  then have c: "map_of (pageCache (navigate ?p no_nav_options s')) (Some ?p) = Some (Str ''page'')"
    unfolding miss by simp
  have f: "map_option rc_cache (map_of (routes s') ''/a'') = Some True"
    using stored flag h1 by simp
  have g: "map_option rc_cache (resolved ?p s') = Some True"
    using h2 flag h1 by simp
  show ?thesis
    using s' f g h3 a h5 c by blast
qed

section \<open>Guards\<close>

text \<open>
  What holds when a guard that is run rejects: \<open>handleRoute\<close> leaves the committed route,
  the mount point and the history alone; \<open>navigate\<close> leaves the committed route and the
  mount point alone, and then records the history entry all the same.
\<close>

lemma log_fields:
  "currentRoute (log lvl msg s) = currentRoute s"
  "rendered (log lvl msg s) = rendered s"
  "mount (log lvl msg s) = mount s"
  "history (log lvl msg s) = history s"
  "routeGuards (log lvl msg s) = routeGuards s"
  "location (log lvl msg s) = location s"
  by (simp_all add: log_def)

lemma handleRoute_guard_rejected:
  assumes "parseUrl fullPath s = (pathname, search)"
    and "matchRoute (routes s) pathname = Some (rpath, config)"
    and "\<not> fst (run_guards (guards_for s pathname) (navigation_context fullPath config s))"
  shows "fst (handleRoute fullPath s) = None \<and>
         currentRoute (snd (handleRoute fullPath s)) = currentRoute s \<and>
         rendered (snd (handleRoute fullPath s)) = rendered s \<and>
         mount (snd (handleRoute fullPath s)) = mount s \<and>
         history (snd (handleRoute fullPath s)) = history s"
  unfolding handleRoute_unfold(2) [OF assms(1,2)] using assms(3) by (simp add: Let_def)

lemma navigate_guard_rejected:
  assumes "navigate_begin path options s = Inr s1"
    and "parseUrl path s = (pathname, search)"
    and "matchRoute (routes s) pathname = Some (rpath, config)"
    and "\<not> fst (run_guards (guards_for s pathname) (navigation_context path config s))"
  shows "currentRoute (navigate path options s) = currentRoute s \<and>
         rendered (navigate path options s) = rendered s \<and>
         mount (navigate path options s) = mount s \<and>
         history (navigate path options s) =
           history s @ [if opt_replace options then ReplaceState path else PushState path]"
proof -
  have s1: "s1 = (log Info (''Navigating to: '' @ path) s)\<lparr>isTransitioning := True, loading := True\<rparr>"
    using assms(1) by (simp add: navigate_begin_def Let_def split: if_splits)
  have same: "routes s1 = routes s" "guards_for s1 pathname = guards_for s pathname"
    "parseUrl path s1 = parseUrl path s" "currentRoute s1 = currentRoute s"
    "rendered s1 = rendered s" "mount s1 = mount s" "history s1 = history s"
    "navigation_context path config s1 = navigation_context path config s"
    by (simp_all add: s1 log_def guards_for_def parseUrl_def navigation_context_def)
  have hr: "fst (handleRoute path s1) = None \<and>
         currentRoute (snd (handleRoute path s1)) = currentRoute s1 \<and>
         rendered (snd (handleRoute path s1)) = rendered s1 \<and>
         mount (snd (handleRoute path s1)) = mount s1 \<and>
         history (snd (handleRoute path s1)) = history s1"
  proof (rule handleRoute_guard_rejected)
    show "parseUrl path s1 = (pathname, search)"
      using assms(2) same(3) by simp
    show "matchRoute (routes s1) pathname = Some (rpath, config)"
      using assms(3) same(1) by simp
    show "\<not> fst (run_guards (guards_for s1 pathname) (navigation_context path config s1))"
      using assms(4) unfolding same(2) same(8) .
  qed
  have "handleRouteWithTransition path s1 = handleRoute path s1"
    using assms(2,3) same by (simp add: handleRouteWithTransition_def)
  then have "navigate path options s =
             navigate_end path options (fst (handleRoute path s1)) (snd (handleRoute path s1))"
    using assms(1) by (simp add: navigate_def split: prod.split)
  with hr same show ?thesis
    by (cases "transitionQueue (snd (handleRoute path s1))")
       (simp_all add: navigate_end_def Let_def)
qed

text \<open>
  C1. When a guard of the matched route returns \<open>false\<close>, the navigation should be
  aborted with the committed route unchanged, nothing rendered and no history entry
  pushed or replaced. With the route \<open>/admin\<close>, a guard registered for \<open>/admin\<close> that
  returns \<open>false\<close>, and \<open>navigate("/admin")\<close>: the committed route stays \<open>null\<close> and nothing
  is rendered, but \<open>history.pushState\<close> is called for \<open>/admin\<close>, because \<open>navigate\<close>
  updates the history after \<open>handleRouteWithTransition\<close> whatever happened in it.
\<close>

theorem guard_false_still_pushes_history:
  "(case addRoute ''/admin'' (HFun (Fn ''ctx => `secret`'' (\<lambda>ctx. Inr (Str ''secret'')))) no_options []
           (new_router e ''/'' (\<lambda>url. NetworkError ''offline'')) of
      Inl err \<Rightarrow> False
    | Inr s \<Rightarrow>
        (let s' = navigate ''/admin'' no_nav_options
                    (addGuard ''/admin'' (\<lambda>ctx. Inr (Bool False)) s)
         in currentRoute s' = None \<and> rendered s' = [] \<and> mount s' = Str [] \<and>
            history s' = [PushState ''/admin'']))"
  by code_simp

text \<open>
  C3. The guards that run for a navigation should be those registered for the pattern
  of the matched route. \<open>handleRoute\<close> passes the pathname, not the pattern, to
  \<open>runRouteGuards\<close>, which looks the guards up under that key. With the route \<open>/admin\<close>
  and a guard registered for \<open>/admin\<close> that returns \<open>false\<close>, \<open>navigate("/admin/")\<close> is
  resolved to the route \<open>/admin\<close> by the shortened path, no guard is found under
  \<open>/admin/\<close>, and the page is committed and rendered.
\<close>

theorem guard_bypassed_by_trailing_slash:
  "(case addRoute ''/admin'' (HFun (Fn ''ctx => `secret`'' (\<lambda>ctx. Inr (Str ''secret'')))) no_options []
           (new_router e ''/'' (\<lambda>url. NetworkError ''offline'')) of
      Inl err \<Rightarrow> False
    | Inr s \<Rightarrow>
        (let s0 = addGuard ''/admin'' (\<lambda>ctx. Inr (Bool False)) s;
             s' = navigate ''/admin/'' no_nav_options s0
         in map_option fst (matchRoute (routes s0) ''/admin/'') = Some ''/admin'' \<and>
            length (guards_for s0 ''/admin'') = 1 \<and>
            guards_for s0 ''/admin/'' = [] \<and>
            map_option (rc_path \<circ> snd) (currentRoute s') = Some ''/admin'' \<and>
            rendered s' = [Str ''secret'']))"
  by code_simp

text \<open>
  What holds for the guards that are run: they run in the order of registration, the
  first one that throws or returns \<open>false\<close> ends the loop with a rejection, and any other
  result lets the loop go on.
\<close>

lemma run_guards_order:
  "run_guards (gs @ g # rest) ctx =
     (if \<forall>h \<in> set gs. \<exists>v. h ctx = Inr v \<and> v \<noteq> Bool False
      then (case g ctx of
              Inl e \<Rightarrow> (False, Suc (length gs))
            | Inr v \<Rightarrow> if v = Bool False then (False, Suc (length gs))
                       else (fst (run_guards rest ctx), Suc (length gs) + snd (run_guards rest ctx)))
      else run_guards gs ctx)"
  by (induction gs) (auto split: sum.splits prod.splits)

lemma addGuard_appends:
  "guards_for (addGuard path g s) path = guards_for s path @ [g]"
  by (simp add: addGuard_def guards_for_def map_of_map_set)

section \<open>The transition queue\<close>

text \<open>
  What holds: however the awaited part ended, \<open>navigate\<close> clears the in-flight flag and
  the loading indicator; when nothing was thrown it takes the next entry off the queue
  and schedules it.
\<close>

lemma navigate_end_resets:
  "\<not> isTransitioning (navigate_end path options thrown s) \<and>
   \<not> loading (navigate_end path options thrown s)"
  by (cases thrown; cases "transitionQueue s")
     (auto simp: navigate_end_def handleNavigationError_def renderContent_def log_def Let_def
       split: error.split)

lemma navigate_end_drains:
  "transitionQueue s = next # rest \<Longrightarrow>
   transitionQueue (navigate_end path options None s) = rest \<and>
   timers (navigate_end path options None s) = timers s @ [next]"
  by (simp add: navigate_end_def Let_def)

lemma navigate_end_thrown:
  "transitionQueue (navigate_end path options (Some e) s) = transitionQueue s \<and>
   timers (navigate_end path options (Some e) s) = timers s"
  by (cases e) (simp add: navigate_end_def handleNavigationError_def renderContent_def log_def)

text \<open>
  C2. After every outcome of \<open>navigate\<close> the in-flight flag should be off and the next
  queued navigation should be taken off the queue and processed. With a route \<open>/a\<close> whose
  middleware throws: \<open>navigate("/a")\<close> is in flight, \<open>navigate("/b")\<close> is queued meanwhile,
  the middleware throws; then the \<open>catch\<close> block clears the flag but leaves \<open>/b\<close> in the
  queue and schedules nothing, and no timer is pending that would process it.
\<close>

theorem failed_navigation_leaves_queue:
  "(case addRoute ''/a'' (HFun (Fn ''ctx => `A`'' (\<lambda>ctx. Inr (Str ''A''))))
           (no_options\<lparr>opt_middleware :=
              Some [Fn ''ctx => { throw new Error(`boom`) }'' (\<lambda>ctx. Inl (Error ''boom''))]\<rparr>) []
           (new_router e ''/'' (\<lambda>url. NetworkError ''offline'')) of
      Inl err \<Rightarrow> False
    | Inr s0 \<Rightarrow>
        (case navigate_begin ''/a'' no_nav_options s0 of
           Inl s1 \<Rightarrow> False
         | Inr s1 \<Rightarrow>
             (case handleRouteWithTransition ''/a'' (navigate ''/b'' no_nav_options s1) of
                (thrown, s3) \<Rightarrow>
                  (let s4 = navigate_end ''/a'' no_nav_options thrown s3
                   in thrown = Some (Error ''boom'') \<and> \<not> isTransitioning s4 \<and>
                      transitionQueue s4 = [(''/b'', no_nav_options)] \<and>
                      timers s4 = [] \<and>
                      map fst (transitionQueue (run_timer s4)) = [''/b'']))))"
  by code_simp

section \<open>Layouts\<close>

text \<open>
  What holds: when the content is not a function and its string form has no dollar
  sign, the first occurrence of the placeholder in the layout output is replaced by the
  content and the rest of the layout output, further placeholders included, is left as
  it is.
\<close>

lemma fill_layout_first_only:
  assumes "\<forall>i < length b.
             take (length ''{{content}}'') (drop i (b @ ''{{content}}'' @ a)) \<noteq> ''{{content}}''"
    and "\<not> callable content"
    and "CHR ''$'' \<notin> set (js_to_string e content)"
  shows "fill_layout e receiver (Str (b @ ''{{content}}'' @ a)) content =
           Inr (Str (b @ js_to_string e content @ a))"
proof -
  have ne: "''{{content}}'' \<noteq> []" by simp
  have "find_first ''{{content}}'' [] (b @ ''{{content}}'' @ a) = Some ([] @ b, a)"
    using ne assms(1) by (rule find_first_here)
  then show ?thesis
    using assms(2,3) by (simp add: fill_layout_def string_replace_def get_substitution_plain)
qed

lemma fill_layout_second_occurrence:
  "fill_layout e receiver (Str ''<a>{{content}}</a><b>{{content}}</b>'') (Str ''page'') =
     Inr (Str ''<a>page</a><b>{{content}}</b>'')"
  by code_simp

text \<open>
  C10. \<open>applyLayout\<close> should replace the first occurrence of \<open>{{content}}\<close> in the layout
  output with the content, for every layout output and every content string. The content
  is passed to \<open>String.prototype.replace\<close> as a replacement string, so dollar patterns in
  it are expanded: with the layout output \<open><main>{{content}}</main>\<close> and the content
  \<open><b>$$5, $&</b>\<close> the result holds \<open>$5\<close> for \<open>$$5\<close> and the placeholder itself for \<open>$&\<close>.
\<close>

theorem layout_expands_dollar_patterns:
  "fill_layout e ''layoutContent'' (Str ''<main>{{content}}</main>'') (Str ''<b>$$5, $&</b>'') =
     Inr (Str ''<main><b>$5, {{content}}</b></main>'') \<and>
   fst (applyLayout (LFun (Fn ''shell'' (\<lambda>ctx. Inr (Str ''<main>{{content}}</main>''))))
          (Str ''<b>$$5, $&</b>'')
          \<lparr>ctx_path = ''/shop'', ctx_fullPath = Some ''/shop'', ctx_params = [], ctx_query = [],
           ctx_route = Some ''/shop''\<rparr>
          (new_router e ''/'' (\<lambda>url. NetworkError ''offline''))) =
     Inr (Str ''<main><b>$5, {{content}}</b></main>'')"
  by code_simp

end
